theory Spec2Isabelle
  imports
    Main
    "HOL-Library.AList"
    "HOL-Library.Char_ord"
    "HOL-Library.List_Lexorder"
    "HOL-Library.Multiset"
begin

section \<open>AgentBus: the file store and the bus operations of agentbus.py\<close>

text \<open>
  The program keeps one JSON file per message under \<^verbatim>\<open>messages/\<close> and one JSON file
  \<^verbatim>\<open>last_seen.json\<close> that maps an agent name to the timestamp text of the last message
  the agent has read. Every function below is the function of the same name in
  \<^verbatim>\<open>agentbus.py\<close>, with the file system passed in and returned explicitly.

  Scope of the model.
  \<^item> A text is a \<^typ>\<open>string\<close>; a character stands for the code point of the same
    number (0 to 255), and texts are compared as Python compares \<^verbatim>\<open>str\<close>: by code
    point, a proper prefix first.
  \<^item> A stored file is what \<^verbatim>\<open>json.load\<close> makes of it: a failure, or a JSON object
    whose members are texts (the shape \<^verbatim>\<open>json.dumps\<close> writes here). What
    \<^verbatim>\<open>json.dumps\<close> writes, \<^verbatim>\<open>json.load\<close> reads back unchanged. JSON documents of
    another shape are outside the model.
  \<^item> The file system does not fail: \<^verbatim>\<open>atomic_write\<close> always ends with the new file in
    place and its temporary file gone, and the message directory exists.
  \<^item> The clock and \<^verbatim>\<open>datetime.fromisoformat\<close> belong to Python, not to the program:
    the clock's text is an argument \<open>now\<close> of the sending functions, and the reading of
    a timestamp text is an argument \<open>fromiso\<close> of the functions that compare times.
\<close>

subsection \<open>Data\<close>

type_synonym jobject = "(string \<times> string) list"

datatype jfile = Unparsable | Parsed jobject

record store =
  messages_dir :: "(string \<times> jfile) list"
  last_seen_file :: "jfile option"

datatype error =
    ValueError string
  | KeyError string
  | TypeError string
  | ToolError string

text \<open>
  A Python \<^verbatim>\<open>datetime\<close>: naive (wall-clock fields only) or aware (a point on the UTC time
  line); the number counts microseconds. Ordering a naive against an aware value raises
  \<^verbatim>\<open>TypeError\<close>.
\<close>

datatype datetime = Naive int | Aware int

fun instant :: "datetime \<Rightarrow> int" where
  "instant (Naive n) = n"
| "instant (Aware n) = n"

fun aware :: "datetime \<Rightarrow> bool" where
  "aware (Naive n) = False"
| "aware (Aware n) = True"

definition dt_gt :: "datetime \<Rightarrow> datetime \<Rightarrow> error + bool" where
  "dt_gt a b =
     (if aware a = aware b then Inr (instant b < instant a)
      else Inl (TypeError ''can't compare offset-naive and offset-aware datetimes''))"

subsection \<open>Texts\<close>

text \<open>The characters \<^verbatim>\<open>str.strip()\<close> removes: those for which \<^verbatim>\<open>str.isspace\<close> holds.\<close>

definition is_space :: "char \<Rightarrow> bool" where
  "is_space c = ((of_char c :: nat) \<in> {9, 10, 11, 12, 13, 28, 29, 30, 31, 32, 133, 160})"

definition strip :: "string \<Rightarrow> string" where
  "strip s = rev (dropWhile is_space (rev (dropWhile is_space s)))"

definition endswith :: "string \<Rightarrow> string \<Rightarrow> bool" where
  "endswith s suf = (length suf \<le> length s \<and> drop (length s - length suf) s = suf)"

definition replace_colon :: "string \<Rightarrow> string" where
  "replace_colon s = map (\<lambda>c. if c = CHR '':'' then CHR ''-'' else c) s"

definition getitem :: "jobject \<Rightarrow> string \<Rightarrow> error + string" where
  "getitem m k = (case map_of m k of None \<Rightarrow> Inl (KeyError k) | Some v \<Rightarrow> Inr v)"

subsection \<open>The store\<close>

definition ensure_dirs :: "store \<Rightarrow> store" where
  "ensure_dirs st =
     (case last_seen_file st of
        None \<Rightarrow> st\<lparr>last_seen_file := Some (Parsed [])\<rparr>
      | Some f \<Rightarrow> st)"

definition atomic_write_message :: "string \<Rightarrow> jobject \<Rightarrow> store \<Rightarrow> store" where
  "atomic_write_message filename m st =
     st\<lparr>messages_dir := AList.update filename (Parsed m) (messages_dir st)\<rparr>"

definition list_message_files :: "store \<Rightarrow> string list" where
  "list_message_files st =
     sort (filter (\<lambda>f. endswith f ''.json'') (map fst (messages_dir st)))"

definition read_message_file :: "store \<Rightarrow> string \<Rightarrow> jobject option" where
  "read_message_file st fn =
     (case map_of (messages_dir st) fn of
        None \<Rightarrow> None
      | Some Unparsable \<Rightarrow> None
      | Some (Parsed m) \<Rightarrow> Some m)"

definition load_last_seen :: "store \<Rightarrow> jobject" where
  "load_last_seen st =
     (case last_seen_file st of
        None \<Rightarrow> []
      | Some Unparsable \<Rightarrow> []
      | Some (Parsed d) \<Rightarrow> d)"

definition save_last_seen :: "jobject \<Rightarrow> store \<Rightarrow> store" where
  "save_last_seen d st = st\<lparr>last_seen_file := Some (Parsed d)\<rparr>"

subsection \<open>Validation and sending\<close>

definition unsafe_chars :: "char list" where
  "unsafe_chars = [CHR ''/'', CHR 0x5C, CHR 0x00, CHR 0x0A, CHR 0x0D]"

definition validate_author :: "string \<Rightarrow> error + string" where
  "validate_author author =
     (if author = [] \<or> strip author = [] then Inl (ValueError ''Author name cannot be empty'')
      else let a = strip author in
        if 100 < length a then Inl (ValueError ''Author name too long (max 100 characters)'')
        else if list_ex (\<lambda>c. c \<in> set a) unsafe_chars
          then Inl (ValueError ''Author name contains invalid characters'')
        else Inr a)"

definition validate_message :: "string \<Rightarrow> error + string" where
  "validate_message content =
     (if content = [] \<or> strip content = [] then Inl (ValueError ''Message content cannot be empty'')
      else let c = strip content in
        if 100000 < length c
          then Inl (ValueError ''Message content too long (max 100,000 characters)'')
        else Inr c)"

definition send_message :: "string \<Rightarrow> string \<Rightarrow> string \<Rightarrow> store \<Rightarrow> (error + jobject) \<times> store" where
  "send_message now author content st =
     (case validate_author author of
        Inl e \<Rightarrow> (Inl e, st)
      | Inr a \<Rightarrow>
          (case validate_message content of
             Inl e \<Rightarrow> (Inl e, st)
           | Inr c \<Rightarrow>
               let filename = replace_colon now @ ''_'' @ a @ ''.json'';
                   message = [(''author'', a), (''timestamp'', now), (''content'', c)]
               in (Inr message, atomic_write_message filename message st)))"

subsection \<open>Reading\<close>

definition timestamp_key :: "jobject \<Rightarrow> string" where
  "timestamp_key m = (case map_of m ''timestamp'' of None \<Rightarrow> [] | Some t \<Rightarrow> t)"

fun read_files :: "store \<Rightarrow> string list \<Rightarrow> jobject list" where
  "read_files st [] = []"
| "read_files st (fn # fns) =
     (case read_message_file st fn of
        None \<Rightarrow> read_files st fns
      | Some m \<Rightarrow> m # read_files st fns)"

definition get_all_messages :: "store \<Rightarrow> jobject list" where
  "get_all_messages st = sort_key timestamp_key (read_files st (list_message_files st))"

text \<open>
  The comprehension \<^verbatim>\<open>[m for m in all_msgs if parse_iso(m["timestamp"]) > seen_dt]\<close>:
  the first message whose timestamp is missing, unreadable or of the other kind ends it with
  the exception. The \<^verbatim>\<open>ValueError\<close> of \<^verbatim>\<open>fromisoformat\<close> shows the text in quotes.
\<close>

fun unread_after :: "(string \<Rightarrow> datetime option) \<Rightarrow> datetime \<Rightarrow> jobject list \<Rightarrow> error + jobject list" where
  "unread_after fromiso seen_dt [] = Inr []"
| "unread_after fromiso seen_dt (m # ms) =
     (case getitem m ''timestamp'' of
        Inl e \<Rightarrow> Inl e
      | Inr ts \<Rightarrow>
          (case fromiso ts of
             None \<Rightarrow> Inl (ValueError (''Invalid isoformat string: '' @ [CHR 0x27] @ ts @ [CHR 0x27]))
           | Some dt \<Rightarrow>
               (case dt_gt dt seen_dt of
                  Inl e \<Rightarrow> Inl e
                | Inr b \<Rightarrow>
                    (case unread_after fromiso seen_dt ms of
                       Inl e \<Rightarrow> Inl e
                     | Inr r \<Rightarrow> Inr (if b then m # r else r)))))"

definition get_unread_for :: "(string \<Rightarrow> datetime option) \<Rightarrow> store \<Rightarrow> string \<Rightarrow> error + jobject list" where
  "get_unread_for fromiso st agent_name =
     (let last_seen = load_last_seen st;
          all_msgs = get_all_messages st
      in case map_of last_seen agent_name of
           None \<Rightarrow> Inr all_msgs
         | Some seen_ts \<Rightarrow>
             (case fromiso seen_ts of
                None \<Rightarrow> Inr all_msgs
              | Some seen_dt \<Rightarrow> unread_after fromiso seen_dt all_msgs))"

definition update_last_seen :: "string \<Rightarrow> jobject list \<Rightarrow> store \<Rightarrow> (error + unit) \<times> store" where
  "update_last_seen agent_name msgs st =
     (if msgs = [] then (Inr (), st)
      else case getitem (last msgs) ''timestamp'' of
             Inl e \<Rightarrow> (Inl e, st)
           | Inr l \<Rightarrow> (Inr (), save_last_seen (AList.update agent_name l (load_last_seen st)) st))"

subsection \<open>The commands\<close>

definition cmd_send :: "string \<Rightarrow> string \<Rightarrow> string \<Rightarrow> store \<Rightarrow> (error + jobject) \<times> store" where
  "cmd_send now author content st0 =
     (case send_message now author content (ensure_dirs st0) of
        (Inl e, st) \<Rightarrow> (Inl e, st)
      | (Inr message, st) \<Rightarrow>
          (case getitem message ''timestamp'' of
             Inl e \<Rightarrow> (Inl e, st)
           | Inr ts \<Rightarrow>
               (case getitem message ''author'' of
                  Inl e \<Rightarrow> (Inl e, st)
                | Inr a \<Rightarrow>
                    (Inr message, save_last_seen (AList.update a ts (load_last_seen st)) st))))"

definition cmd_get_messages :: "(string \<Rightarrow> datetime option) \<Rightarrow> string option \<Rightarrow> store \<Rightarrow> (error + jobject list) \<times> store" where
  "cmd_get_messages fromiso for_agent st0 =
     (let st = ensure_dirs st0
      in case for_agent of
           None \<Rightarrow> (Inr (get_all_messages st), st)
         | Some name \<Rightarrow>
             (if name = [] then (Inr (get_all_messages st), st)
              else case get_unread_for fromiso st name of
                     Inl e \<Rightarrow> (Inl e, st)
                   | Inr unread \<Rightarrow>
                       (if unread \<noteq> [] then
                          (case update_last_seen name unread st of
                             (Inl e, st') \<Rightarrow> (Inl e, st')
                           | (Inr u, st') \<Rightarrow> (Inr unread, st'))
                        else (Inr unread, st))))"

subsection \<open>The tools of agentbus_mcp.py\<close>

text \<open>
  \<^verbatim>\<open>str(e)\<close> of an exception, which the tools put into their \<^verbatim>\<open>ToolError\<close>; a
  \<^verbatim>\<open>KeyError\<close> prints its key in quotes.
\<close>

fun message_of :: "error \<Rightarrow> string" where
  "message_of (ValueError t) = t"
| "message_of (KeyError k) = [CHR 0x27] @ k @ [CHR 0x27]"
| "message_of (TypeError t) = t"
| "message_of (ToolError t) = t"

definition send_agent_message :: "string \<Rightarrow> string \<Rightarrow> string \<Rightarrow> store \<Rightarrow> (error + string) \<times> store" where
  "send_agent_message now author message st0 =
     (if author = [] \<or> strip author = []
        then (Inl (ToolError ''Author name is required and cannot be empty''), st0)
      else if message = [] \<or> strip message = []
        then (Inl (ToolError ''Message content is required and cannot be empty''), st0)
      else case send_message now (strip author) (strip message) (ensure_dirs st0) of
             (Inl e, st) \<Rightarrow> (Inl (ToolError (''Failed to send message: '' @ message_of e)), st)
           | (Inr m, st) \<Rightarrow> (Inr (''Message posted to development channel from '' @ author), st))"

definition get_agent_messages :: "(string \<Rightarrow> datetime option) \<Rightarrow> string \<Rightarrow> store \<Rightarrow> (error + jobject list) \<times> store" where
  "get_agent_messages fromiso for_agent st0 =
     (if for_agent = [] \<or> strip for_agent = []
        then (Inl (ToolError ''Agent name is required and cannot be empty''), st0)
      else let agent_name = strip for_agent; st = ensure_dirs st0
        in case get_unread_for fromiso st agent_name of
             Inl e \<Rightarrow> (Inl (ToolError (''Failed to retrieve messages: '' @ message_of e)), st)
           | Inr unread \<Rightarrow>
               (if unread \<noteq> [] then
                  (case update_last_seen agent_name unread st of
                     (Inl e, st') \<Rightarrow>
                       (Inl (ToolError (''Failed to retrieve messages: '' @ message_of e)), st')
                   | (Inr u, st') \<Rightarrow> (Inr unread, st'))
                else (Inr unread, st)))"

subsection \<open>A reading of timestamps for concrete runs\<close>

text \<open>
  \<^verbatim>\<open>datetime.fromisoformat\<close> on the two fixed-width forms that
  \<^verbatim>\<open>isoformat(timespec="microseconds")\<close> writes: \<^verbatim>\<open>YYYY-MM-DDTHH:MM:SS.ffffff\<close> (naive)
  and the same followed by an offset \<^verbatim>\<open>+HH:MM\<close> or \<^verbatim>\<open>-HH:MM\<close> (aware). The number is
  the count of microseconds since 0001-01-01T00:00:00, in UTC for an aware value. Every other
  text is rejected here; the concrete runs below use this reading only at texts of these two
  forms and at texts that Python rejects as well. The general theorems hold for every reading.
\<close>

definition digit :: "char \<Rightarrow> int option" where
  "digit c = (let n = (of_char c :: int) in if 48 \<le> n \<and> n \<le> 57 then Some (n - 48) else None)"

fun number_from :: "int \<Rightarrow> string \<Rightarrow> int option" where
  "number_from acc [] = Some acc"
| "number_from acc (c # cs) =
     (case digit c of
        None \<Rightarrow> None
      | Some d \<Rightarrow> number_from (acc * 10 + d) cs)"

definition field :: "string \<Rightarrow> nat \<Rightarrow> nat \<Rightarrow> int option" where
  "field s i n = number_from 0 (take n (drop i s))"

definition is_leap :: "int \<Rightarrow> bool" where
  "is_leap y = (if y mod 100 = 0 then y mod 400 = 0 else y mod 4 = 0)"

definition days_in_month :: "int \<Rightarrow> int \<Rightarrow> int" where
  "days_in_month y m =
     (if m = 2 then (if is_leap y then 29 else 28)
      else if m = 4 \<or> m = 6 \<or> m = 9 \<or> m = 11 then 30 else 31)"

definition days_before_year :: "int \<Rightarrow> int" where
  "days_before_year y = (y - 1) * 365 + (y - 1) div 4 - (y - 1) div 100 + (y - 1) div 400"

definition days_before_month :: "int \<Rightarrow> int \<Rightarrow> int" where
  "days_before_month y m =
     (if m = 1 then 0 else if m = 2 then 31
      else (if is_leap y then 1 else 0) +
        (if m = 3 then 59 else if m = 4 then 90 else if m = 5 then 120 else if m = 6 then 151
         else if m = 7 then 181 else if m = 8 then 212 else if m = 9 then 243
         else if m = 10 then 273 else if m = 11 then 304 else 334))"

definition wall_clock :: "string \<Rightarrow> int option" where
  "wall_clock s =
     (if s ! 4 = CHR ''-'' \<and> s ! 7 = CHR ''-'' \<and> s ! 10 = CHR ''T'' \<and> s ! 13 = CHR '':''
         \<and> s ! 16 = CHR '':'' \<and> s ! 19 = CHR ''.''
      then case (field s 0 4, field s 5 2, field s 8 2) of
        (Some y, Some mo, Some d) \<Rightarrow>
          (case (field s 11 2, field s 14 2, field s 17 2, field s 20 6) of
             (Some h, Some mi, Some sec, Some us) \<Rightarrow>
               if 1 \<le> y \<and> 1 \<le> mo \<and> mo \<le> 12 \<and> 1 \<le> d \<and> d \<le> days_in_month y mo
                  \<and> h < 24 \<and> mi < 60 \<and> sec < 60
               then Some (((((days_before_year y + days_before_month y mo + (d - 1)) * 24 + h) * 60
                            + mi) * 60 + sec) * 1000000 + us)
               else None
           | _ \<Rightarrow> None)
      | _ \<Rightarrow> None
      else None)"

definition utc_offset :: "string \<Rightarrow> int option" where
  "utc_offset s =
     (if s ! 3 = CHR '':'' \<and> (s ! 0 = CHR ''+'' \<or> s ! 0 = CHR ''-'')
      then case (field s 1 2, field s 4 2) of
        (Some h, Some mi) \<Rightarrow>
          if h < 24 \<and> mi < 60
          then Some ((if s ! 0 = CHR ''-'' then - 1 else 1) * ((h * 60 + mi) * 60) * 1000000)
          else None
      | _ \<Rightarrow> None
      else None)"

definition fromisoformat :: "string \<Rightarrow> datetime option" where
  "fromisoformat s =
     (if length s = 26 then map_option Naive (wall_clock s)
      else if length s = 32 then
        (case (wall_clock (take 26 s), utc_offset (drop 26 s)) of
           (Some w, Some off) \<Rightarrow> Some (Aware (w - off))
         | _ \<Rightarrow> None)
      else None)"

subsection \<open>Vocabulary of the statements\<close>

text \<open>
  The messages a store holds, in the order of its directory listing: the records of the
  files named \<^verbatim>\<open>*.json\<close> that parse. The point in time a record's timestamp stands for
  under a reading \<open>fromiso\<close>; whether it can be ordered against a cursor \<open>t\<close>; whether it is
  strictly later than \<open>t\<close>. And: the timestamps of a list of records all read as datetimes
  of one kind, and their order as texts agrees with their order in time.
\<close>

definition stored_messages :: "store \<Rightarrow> jobject list" where
  "stored_messages st =
     concat (map (\<lambda>(fn, f). case f of
                      Unparsable \<Rightarrow> []
                    | Parsed m \<Rightarrow> if endswith fn ''.json'' then [m] else [])
                 (messages_dir st))"

definition stamp :: "(string \<Rightarrow> datetime option) \<Rightarrow> jobject \<Rightarrow> datetime option" where
  "stamp fromiso m = (case map_of m ''timestamp'' of None \<Rightarrow> None | Some ts \<Rightarrow> fromiso ts)"

definition comparable :: "(string \<Rightarrow> datetime option) \<Rightarrow> datetime \<Rightarrow> jobject \<Rightarrow> bool" where
  "comparable fromiso t m = (case stamp fromiso m of None \<Rightarrow> False | Some d \<Rightarrow> aware d = aware t)"

definition later :: "(string \<Rightarrow> datetime option) \<Rightarrow> datetime \<Rightarrow> jobject \<Rightarrow> bool" where
  "later fromiso t m = (case stamp fromiso m of None \<Rightarrow> False | Some d \<Rightarrow> instant t < instant d)"

definition in_time_order :: "(string \<Rightarrow> datetime option) \<Rightarrow> jobject list \<Rightarrow> bool" where
  "in_time_order fromiso ms =
     list_all (\<lambda>m. list_all (\<lambda>m'.
        case (stamp fromiso m, stamp fromiso m') of
          (Some d, Some d') \<Rightarrow>
             aware d = aware d' \<and> (if timestamp_key m \<le> timestamp_key m' then instant d \<le> instant d' else True)
        | _ \<Rightarrow> False) ms) ms"

text \<open>One record is not after another in time: both timestamps read, and the first is no later.\<close>

definition not_after :: "(string \<Rightarrow> datetime option) \<Rightarrow> jobject \<Rightarrow> jobject \<Rightarrow> bool" where
  "not_after fromiso m m' =
     (case (stamp fromiso m, stamp fromiso m') of
        (Some d, Some d') \<Rightarrow> instant d \<le> instant d'
      | _ \<Rightarrow> False)"

text \<open>
  The instant of a wall-clock reading, as \<^verbatim>\<open>wall_clock\<close> computes it. And the texts the
  program itself writes as timestamps (\<^verbatim>\<open>isoformat(timespec="microseconds")\<close> of a UTC time):
  a wall-clock reading of 26 characters followed by the offset \<^verbatim>\<open>+00:00\<close>.
\<close>

definition clock_instant :: "int \<Rightarrow> int \<Rightarrow> int \<Rightarrow> int \<Rightarrow> int \<Rightarrow> int \<Rightarrow> int \<Rightarrow> int" where
  "clock_instant y mo d h mi sec us =
     ((((days_before_year y + days_before_month y mo + (d - 1)) * 24 + h) * 60 + mi) * 60 + sec) * 1000000 + us"

definition utc_text :: "string \<Rightarrow> bool" where
  "utc_text s =
     (drop 26 s = ''+00:00'' \<and> (case wall_clock (take 26 s) of None \<Rightarrow> False | Some w \<Rightarrow> True))"

section \<open>Facts about the operations\<close>

subsection \<open>Validation and sending\<close>

lemma validate_author_Inr:
  "validate_author author = Inr a \<longleftrightarrow>
     a = strip author \<and> strip author \<noteq> [] \<and> length (strip author) \<le> 100
     \<and> \<not> list_ex (\<lambda>c. c \<in> set (strip author)) unsafe_chars"
  by (auto simp: validate_author_def Let_def strip_def)

lemma validate_author_Inl:
  "(\<exists>e. validate_author author = Inl e) \<longleftrightarrow>
     strip author = [] \<or> 100 < length (strip author)
     \<or> list_ex (\<lambda>c. c \<in> set (strip author)) unsafe_chars"
  by (auto simp: validate_author_def Let_def strip_def)

lemma validate_author_error: "validate_author author = Inl e \<Longrightarrow> \<exists>msg. e = ValueError msg"
  by (auto simp: validate_author_def Let_def split: if_splits)

lemma validate_message_Inr:
  "validate_message content = Inr c \<longleftrightarrow>
     c = strip content \<and> strip content \<noteq> [] \<and> length (strip content) \<le> 100000"
  by (auto simp: validate_message_def Let_def strip_def)

lemma validate_message_error: "validate_message content = Inl e \<Longrightarrow> \<exists>msg. e = ValueError msg"
  by (auto simp: validate_message_def Let_def split: if_splits)

lemma send_message_Inr:
  "send_message now author content st = (Inr m, st') \<longleftrightarrow>
     validate_author author = Inr (strip author) \<and> validate_message content = Inr (strip content)
     \<and> m = [(''author'', strip author), (''timestamp'', now), (''content'', strip content)]
     \<and> st' = atomic_write_message (replace_colon now @ ''_'' @ strip author @ ''.json'') m st"
proof (cases "validate_author author")
  case (Inl e)
  then show ?thesis by (auto simp: send_message_def)
next
  case (Inr a)
  note a = this
  then have sa: "a = strip author" by (simp add: validate_author_Inr)
  show ?thesis
  proof (cases "validate_message content")
    case (Inl e)
    then show ?thesis using a by (auto simp: send_message_def)
  next
    case (Inr c)
    then have "c = strip content" by (simp add: validate_message_Inr)
    then show ?thesis using a sa Inr by (auto simp: send_message_def Let_def)
  qed
qed

lemma send_message_Inl:
  "send_message now author content st = (Inl e, st') \<Longrightarrow> st' = st \<and> (\<exists>msg. e = ValueError msg)"
  by (auto simp: send_message_def Let_def split: sum.splits dest: validate_author_error validate_message_error)

lemma load_save_last_seen: "load_last_seen (save_last_seen d st) = d"
  by (simp add: load_last_seen_def save_last_seen_def)

lemma messages_dir_save_last_seen: "messages_dir (save_last_seen d st) = messages_dir st"
  by (simp add: save_last_seen_def)

lemma sorted_last_greatest:
  "sorted (map f xs) \<Longrightarrow> x \<in> set xs \<Longrightarrow> f x \<le> f (last xs)"
  by (induction xs) (auto split: if_splits)

lemma dropWhile_unpadded: "xs \<noteq> [] \<Longrightarrow> \<not> P (hd xs) \<Longrightarrow> dropWhile P xs = xs"
  by (cases xs) simp_all

lemma strip_unpadded:
  assumes "s \<noteq> []" and "\<not> is_space (hd s)" and "\<not> is_space (last s)"
  shows "strip s = s"
proof -
  have 1: "dropWhile is_space s = s"
    using assms(1,2) by (rule dropWhile_unpadded)
  have "rev s \<noteq> []" and "\<not> is_space (hd (rev s))"
    using assms(1,3) by (simp_all add: hd_rev)
  then have 2: "dropWhile is_space (rev s) = rev s"
    by (rule dropWhile_unpadded)
  show ?thesis by (simp add: strip_def 1 2)
qed

subsection \<open>Reading\<close>

lemma unread_after_comparable:
  "list_all (comparable fromiso t) ms \<Longrightarrow> unread_after fromiso t ms = Inr (filter (later fromiso t) ms)"
  by (induction ms)
     (auto simp: comparable_def later_def stamp_def getitem_def dt_gt_def split: option.splits)

lemma unread_after_Inr_comparable:
  "unread_after fromiso t ms = Inr r \<Longrightarrow> list_all (comparable fromiso t) ms"
  by (induction ms arbitrary: r)
     (auto simp: comparable_def stamp_def getitem_def dt_gt_def split: option.splits sum.splits if_splits)

lemma unread_after_Inr_iff:
  "unread_after fromiso t ms = Inr r \<longleftrightarrow>
     list_all (comparable fromiso t) ms \<and> r = filter (later fromiso t) ms"
  using unread_after_comparable unread_after_Inr_comparable by (metis sum.inject(2))

lemma read_files_map_filter: "read_files st fns = List.map_filter (read_message_file st) fns"
  by (induction fns) (auto simp: List.map_filter_simps split: option.splits)

lemma mset_map_filter: "mset xs = mset ys \<Longrightarrow> mset (List.map_filter f xs) = mset (List.map_filter f ys)"
  by (simp add: List.map_filter_def)

lemma read_files_listing:
  assumes "distinct (map fst (messages_dir st))" "set xs \<subseteq> set (messages_dir st)"
  shows "read_files st (filter (\<lambda>f. endswith f ''.json'') (map fst xs)) =
         concat (map (\<lambda>(fn, f). case f of
                      Unparsable \<Rightarrow> []
                    | Parsed m \<Rightarrow> if endswith fn ''.json'' then [m] else []) xs)"
  using assms
  by (induction xs) (auto simp: read_message_file_def split: jfile.splits)

lemma mset_get_all_messages:
  assumes "distinct (map fst (messages_dir st))"
  shows "mset (get_all_messages st) = mset (stored_messages st)"
proof -
  have "mset (get_all_messages st) = mset (read_files st (list_message_files st))"
    by (simp add: get_all_messages_def)
  also have "\<dots> = mset (read_files st (filter (\<lambda>f. endswith f ''.json'') (map fst (messages_dir st))))"
    unfolding read_files_map_filter list_message_files_def
    by (rule mset_map_filter) simp
  also have "\<dots> = mset (stored_messages st)"
    using read_files_listing[OF assms, of "messages_dir st"] by (simp add: stored_messages_def)
  finally show ?thesis .
qed

lemma sorted_get_all_messages: "sorted (map timestamp_key (get_all_messages st))"
  by (simp add: get_all_messages_def)

lemma get_all_messages_cong:
  assumes "map_of (messages_dir st') = map_of (messages_dir st)"
      and "list_message_files st' = list_message_files st"
  shows "get_all_messages st' = get_all_messages st"
proof -
  have "read_message_file st' = read_message_file st"
    using assms(1) by (simp add: read_message_file_def fun_eq_iff)
  then show ?thesis by (simp add: get_all_messages_def read_files_map_filter assms(2))
qed

lemma get_all_messages_listing_order:
  assumes d: "distinct (map fst (messages_dir st))"
      and m: "mset (messages_dir st') = mset (messages_dir st)"
  shows "get_all_messages st' = get_all_messages st"
proof (rule get_all_messages_cong)
  have m1: "mset (map fst (messages_dir st')) = mset (map fst (messages_dir st))"
    using m by (metis mset_map)
  then have d': "distinct (map fst (messages_dir st'))"
    using d by (metis mset_eq_imp_distinct_iff)
  have "set (messages_dir st') = set (messages_dir st)"
    using m by (metis mset_eq_setD)
  then show "map_of (messages_dir st') = map_of (messages_dir st)"
    using d d' by (simp add: map_of_inject_set)
  have "mset (filter (\<lambda>f. endswith f ''.json'') (map fst (messages_dir st'))) =
        mset (filter (\<lambda>f. endswith f ''.json'') (map fst (messages_dir st)))"
    using m1 by (metis mset_filter)
  then show "list_message_files st' = list_message_files st"
    unfolding list_message_files_def by (metis sorted_list_of_multiset_mset)
qed

lemma get_all_messages_registry [simp]:
  "get_all_messages (save_last_seen d st) = get_all_messages st"
  by (rule get_all_messages_cong) (simp_all add: save_last_seen_def list_message_files_def)

lemma in_time_orderD:
  assumes "in_time_order fromiso ms" "m \<in> set ms" "m' \<in> set ms"
  shows "\<exists>d d'. stamp fromiso m = Some d \<and> stamp fromiso m' = Some d' \<and> aware d = aware d'
           \<and> (timestamp_key m \<le> timestamp_key m' \<longrightarrow> instant d \<le> instant d')"
  using assms unfolding in_time_order_def list_all_iff
  by (fastforce split: option.splits if_splits)

lemma get_unread_for_no_entry:
  "map_of (load_last_seen st) reader = None \<Longrightarrow> get_unread_for fromiso st reader = Inr (get_all_messages st)"
  by (simp add: get_unread_for_def Let_def)

lemma get_unread_for_unparsable_entry:
  "map_of (load_last_seen st) reader = Some ts \<Longrightarrow> fromiso ts = None \<Longrightarrow>
   get_unread_for fromiso st reader = Inr (get_all_messages st)"
  by (simp add: get_unread_for_def Let_def)

lemma get_unread_for_entry:
  "map_of (load_last_seen st) reader = Some ts \<Longrightarrow> fromiso ts = Some t \<Longrightarrow>
   get_unread_for fromiso st reader = unread_after fromiso t (get_all_messages st)"
  by (simp add: get_unread_for_def Let_def)

lemma get_unread_for_Inr:
  assumes "get_unread_for fromiso st reader = Inr ms"
  shows "ms = get_all_messages st \<or>
         (\<exists>t. list_all (comparable fromiso t) (get_all_messages st)
              \<and> ms = filter (later fromiso t) (get_all_messages st))"
proof (cases "map_of (load_last_seen st) reader")
  case None
  with assms show ?thesis by (simp add: get_unread_for_no_entry)
next
  case (Some ts)
  show ?thesis
  proof (cases "fromiso ts")
    case None
    with Some assms show ?thesis by (simp add: get_unread_for_unparsable_entry)
  next
    case (Some t)
    with \<open>map_of (load_last_seen st) reader = Some ts\<close> assms
    have "unread_after fromiso t (get_all_messages st) = Inr ms"
      by (simp add: get_unread_for_entry)
    then show ?thesis by (auto simp: unread_after_Inr_iff)
  qed
qed

lemma get_unread_for_cases:
  assumes "get_unread_for fromiso st reader = Inr ms"
  obtains (all) "ms = get_all_messages st"
  | (newer) t where "list_all (comparable fromiso t) (get_all_messages st)"
                    "ms = filter (later fromiso t) (get_all_messages st)"
  using get_unread_for_Inr[OF assms] by blast

lemma stamp_SomeD: "stamp fromiso m = Some d \<Longrightarrow> \<exists>ts. map_of m ''timestamp'' = Some ts \<and> fromiso ts = Some d"
  by (auto simp: stamp_def split: option.splits)

lemma in_time_order_set:
  "set ms = set ms' \<Longrightarrow> in_time_order fromiso ms = in_time_order fromiso ms'"
  by (simp add: in_time_order_def list_all_iff)

lemma sorted_in_time_order:
  assumes "sorted (map timestamp_key ms)" and "in_time_order fromiso ms"
  shows "sorted_wrt (not_after fromiso) ms"
proof -
  have "sorted_wrt (\<lambda>m m'. timestamp_key m \<le> timestamp_key m') ms"
    using assms(1) by (simp add: sorted_map)
  then show ?thesis
  proof (rule sorted_wrt_mono_rel[rotated])
    fix m m' assume "m \<in> set ms" "m' \<in> set ms" "timestamp_key m \<le> timestamp_key m'"
    with in_time_orderD[OF assms(2), of m m'] show "not_after fromiso m m'"
      by (auto simp: not_after_def)
  qed
qed

subsection \<open>Timestamps in the form the program writes\<close>

text \<open>
  For two timestamp texts of the form the program writes, the order of the texts is the
  order of the instants they stand for: fields of digits of one width compare as their
  numbers do, and the instant grows with the date and the time of day.
\<close>

lemma le_append_same_length:
  fixes a b :: "'a::linorder list"
  shows "length a = length b \<Longrightarrow> (a @ r \<le> b @ r') = (a < b \<or> (a = b \<and> r \<le> r'))"
  by (induction a b rule: list_induct2) auto

lemma digit_bounds: "digit c = Some d \<Longrightarrow> 0 \<le> d \<and> d \<le> 9"
  by (auto simp: digit_def Let_def split: if_splits)

lemma char_less_int: "(c < e) = ((of_char c :: int) < of_char e)"
proof -
  have "(of_char c :: int) = int (of_char c)" "(of_char e :: int) = int (of_char e)"
    by (simp_all add: of_nat_of_char)
  then show ?thesis by (simp add: less_char_def)
qed

lemma digit_less: "digit c = Some d \<Longrightarrow> digit e = Some d' \<Longrightarrow> (c < e) = (d < d')"
  by (auto simp: digit_def Let_def char_less_int split: if_splits)

lemma digit_eq: "digit c = Some d \<Longrightarrow> digit e = Some d' \<Longrightarrow> (c = e) = (d = d')"
  by (auto simp: digit_def Let_def split: if_splits)

lemma number_from_range:
  "number_from acc ds = Some n \<Longrightarrow> 0 \<le> acc \<Longrightarrow>
   acc * 10 ^ length ds \<le> n \<and> n < (acc + 1) * 10 ^ length ds"
proof (induction ds arbitrary: acc n)
  case Nil
  then show ?case by simp
next
  case (Cons c cs)
  then obtain d where d: "digit c = Some d" and run: "number_from (acc * 10 + d) cs = Some n"
    by (auto split: option.splits)
  from digit_bounds[OF d] have b: "0 \<le> d" "d \<le> 9" by simp_all
  let ?P = "(10::int) ^ length cs"
  have P: "0 \<le> ?P" by simp
  from Cons.IH[OF run] Cons.prems(2) b
  have 1: "(acc * 10 + d) * ?P \<le> n" and 2: "n < (acc * 10 + d + 1) * ?P" by simp_all
  have "acc * 10 * ?P \<le> (acc * 10 + d) * ?P"
    using b P by (intro mult_right_mono) simp_all
  moreover have "(acc * 10 + d + 1) * ?P \<le> (acc * 10 + 10) * ?P"
    using b P by (intro mult_right_mono) simp_all
  ultimately have "acc * 10 * ?P \<le> n" and "n < (acc * 10 + 10) * ?P"
    using 1 2 by linarith+
  then show ?case by (simp add: algebra_simps)
qed

lemma number_from_order:
  "length a = length b \<Longrightarrow> number_from acc a = Some x \<Longrightarrow> number_from acc b = Some y \<Longrightarrow>
   0 \<le> acc \<Longrightarrow> ((a < b) = (x < y)) \<and> ((a = b) = (x = y))"
proof (induction a b arbitrary: acc x y rule: list_induct2)
  case Nil
  then show ?case by simp
next
  case (Cons c cs e es)
  from Cons.prems obtain dc where dc: "digit c = Some dc"
    and rx: "number_from (acc * 10 + dc) cs = Some x"
    by (auto split: option.splits)
  from Cons.prems obtain de where de: "digit e = Some de"
    and ry: "number_from (acc * 10 + de) es = Some y"
    by (auto split: option.splits)
  from digit_bounds[OF dc] digit_bounds[OF de] have b: "0 \<le> dc" "0 \<le> de" by simp_all
  let ?P = "(10::int) ^ length cs"
  have P: "0 \<le> ?P" by simp
  have len: "length es = length cs" using Cons.hyps by simp
  consider (eq) "dc = de" | (lt) "dc < de" | (gt) "de < dc" by linarith
  then show ?case
  proof cases
    case eq
    then have ce: "c = e" using digit_eq[OF dc de] by simp
    from Cons.IH[OF rx ry[folded eq]] Cons.prems(3) b
    have "((cs < es) = (x < y)) \<and> ((cs = es) = (x = y))" by simp
    with ce show ?thesis by simp
  next
    case lt
    then have ce: "c < e" using digit_less[OF dc de] by simp
    have "x < (acc * 10 + dc + 1) * ?P"
      using number_from_range[OF rx] Cons.prems(3) b by simp
    moreover have "(acc * 10 + dc + 1) * ?P \<le> (acc * 10 + de) * ?P"
      using lt P by (intro mult_right_mono) simp_all
    moreover have "(acc * 10 + de) * ?P \<le> y"
      using number_from_range[OF ry] Cons.prems(3) b len by simp
    ultimately have "x < y" by linarith
    with ce show ?thesis by auto
  next
    case gt
    then have ce: "e < c" using digit_less[OF de dc] by simp
    have "y < (acc * 10 + de + 1) * ?P"
      using number_from_range[OF ry] Cons.prems(3) b len by simp
    moreover have "(acc * 10 + de + 1) * ?P \<le> (acc * 10 + dc) * ?P"
      using gt P by (intro mult_right_mono) simp_all
    moreover have "(acc * 10 + dc) * ?P \<le> x"
      using number_from_range[OF rx] Cons.prems(3) b by simp
    ultimately have "y < x" by linarith
    with ce show ?thesis by auto
  qed
qed

lemma days_before_month_next:
  assumes "1 \<le> mo" "mo \<le> 11"
  shows "days_before_month y (mo + 1) = days_before_month y mo + days_in_month y mo"
proof -
  from assms have "mo = 1 \<or> mo = 2 \<or> mo = 3 \<or> mo = 4 \<or> mo = 5 \<or> mo = 6 \<or> mo = 7 \<or> mo = 8
       \<or> mo = 9 \<or> mo = 10 \<or> mo = 11" by arith
  then show ?thesis
    by (elim disjE) (simp_all add: days_before_month_def days_in_month_def)
qed

lemma days_in_month_pos: "0 < days_in_month y mo"
  by (simp add: days_in_month_def)

lemma days_before_month_mono:
  assumes "1 \<le> mo" "mo \<le> mo'" "mo' \<le> 12"
  shows "days_before_month y mo \<le> days_before_month y mo'"
proof -
  have "mo + k \<le> 12 \<Longrightarrow> days_before_month y mo \<le> days_before_month y (mo + k)" if "0 \<le> k" for k
    using that
  proof (induction k rule: int_ge_induct)
    case base
    then show ?case by simp
  next
    case (step i)
    then have "days_before_month y (mo + i + 1) = days_before_month y (mo + i) + days_in_month y (mo + i)"
      using assms(1) by (intro days_before_month_next) simp_all
    with step days_in_month_pos[of y "mo + i"] show ?case by (simp add: add.assoc)
  qed
  from this[of "mo' - mo"] assms show ?thesis by simp
qed

lemma days_in_year:
  "days_before_month y 12 + days_in_month y 12 = 365 + (if is_leap y then 1 else 0)"
  by (simp add: days_before_month_def days_in_month_def)

lemma div_step:
  fixes y k :: int
  assumes "0 < k"
  shows "y div k = (y - 1) div k + (if y mod k = 0 then 1 else 0)"
proof (cases "y mod k = 0")
  case True
  have "y = k * (y div k)"
    using True mult_div_mod_eq[of k y] by simp
  then have "y - 1 = k * (y div k - 1) + (k - 1)"
    by (simp add: algebra_simps)
  then have "(y - 1) div k = y div k - 1"
    by (rule int_div_pos_eq) (use assms in simp_all)
  with True show ?thesis by simp
next
  case False
  have r: "0 \<le> y mod k" "y mod k < k" using assms by simp_all
  have "y - 1 = k * (y div k) + (y mod k - 1)"
    using mult_div_mod_eq[of k y] by simp
  then have "(y - 1) div k = y div k"
    by (rule int_div_pos_eq) (use assms r False in simp_all)
  with False show ?thesis by simp
qed

lemma days_before_year_next:
  "days_before_year (y + 1) = days_before_year y + 365 + (if is_leap y then 1 else 0)"
proof -
  have a: "y mod 100 = 0 \<Longrightarrow> y mod 4 = 0"
    using mod_mod_cancel[of 4 100 y] by simp
  have b: "y mod 400 = 0 \<Longrightarrow> y mod 100 = 0"
    using mod_mod_cancel[of 100 400 y] by simp
  define q4 q100 q400 where "q4 = (y - 1) div 4" and "q100 = (y - 1) div 100" and "q400 = (y - 1) div 400"
  define e4 e100 e400 :: int where "e4 = (if y mod 4 = 0 then 1 else 0)"
    and "e100 = (if y mod 100 = 0 then 1 else 0)" and "e400 = (if y mod 400 = 0 then 1 else 0)"
  have d4: "y div 4 = q4 + e4" unfolding q4_def e4_def by (rule div_step) simp
  have d100: "y div 100 = q100 + e100" unfolding q100_def e100_def by (rule div_step) simp
  have d400: "y div 400 = q400 + e400" unfolding q400_def e400_def by (rule div_step) simp
  have l: "e4 - e100 + e400 = (if is_leap y then 1 else 0)"
    using a b unfolding e4_def e100_def e400_def is_leap_def by (cases "y mod 100 = 0"; cases "y mod 400 = 0"; simp)
  have 1: "days_before_year (y + 1) = y * 365 + y div 4 - y div 100 + y div 400"
    by (simp add: days_before_year_def)
  have 2: "days_before_year y = (y - 1) * 365 + q4 - q100 + q400"
    by (simp add: days_before_year_def q4_def q100_def q400_def)
  have 3: "(y - 1) * 365 = y * 365 - 365" by (simp add: algebra_simps)
  show ?thesis unfolding 1 2 3 d4 d100 d400 using l by linarith
qed

lemma days_before_year_mono:
  assumes "y \<le> y'"
  shows "days_before_year y \<le> days_before_year y'"
proof -
  have "days_before_year y \<le> days_before_year (y + k)" if "0 \<le> k" for k
    using that
  proof (induction k rule: int_ge_induct)
    case base
    then show ?case by simp
  next
    case (step i)
    have "days_before_year (y + i + 1) = days_before_year (y + i) + 365 + (if is_leap (y + i) then 1 else 0)"
      by (rule days_before_year_next)
    then have "days_before_year (y + i) \<le> days_before_year (y + i + 1)"
      by (cases "is_leap (y + i)") simp_all
    with step show ?case by (simp add: add.assoc)
  qed
  from this[of "y' - y"] assms show ?thesis by simp
qed

lemma day_number_order:
  assumes m: "1 \<le> mo" "mo \<le> 12" and d: "1 \<le> d" "d \<le> days_in_month y mo"
      and m': "1 \<le> mo'" "mo' \<le> 12" and d': "1 \<le> d'" "d' \<le> days_in_month y' mo'"
      and lt: "y < y' \<or> (y = y' \<and> (mo < mo' \<or> (mo = mo' \<and> d < d')))"
  shows "days_before_year y + days_before_month y mo + (d - 1)
       < days_before_year y' + days_before_month y' mo' + (d' - 1)"
proof -
  have in_month: "days_before_month y mo + d \<le> days_before_month y 12 + days_in_month y 12"
  proof (cases "mo = 12")
    case True
    with d show ?thesis by simp
  next
    case False
    then have "days_before_month y (mo + 1) = days_before_month y mo + days_in_month y mo"
      using m by (intro days_before_month_next) simp_all
    moreover have "days_before_month y (mo + 1) \<le> days_before_month y 12"
      using m False by (intro days_before_month_mono) simp_all
    ultimately show ?thesis using d days_in_month_pos[of y 12] by linarith
  qed
  have "days_before_month y' 1 \<le> days_before_month y' mo'"
    using m' by (intro days_before_month_mono) simp_all
  then have lo: "0 \<le> days_before_month y' mo'"
    by (simp add: days_before_month_def)
  from lt consider (year) "y < y'" | (month) "y' = y" "mo < mo'" | (day) "y' = y" "mo' = mo" "d < d'"
    by auto
  then show ?thesis
  proof cases
    case year
    have "days_before_month y 12 + days_in_month y 12 + days_before_year y = days_before_year (y + 1)"
      using days_in_year[of y] days_before_year_next[of y] by (cases "is_leap y") simp_all
    then have "days_before_year y + days_before_month y mo + d \<le> days_before_year (y + 1)"
      using in_month by linarith
    also have "\<dots> \<le> days_before_year y'"
      using year by (intro days_before_year_mono) simp
    finally show ?thesis using lo d' by linarith
  next
    case month
    have "days_before_month y (mo + 1) = days_before_month y mo + days_in_month y mo"
      using m month m' by (intro days_before_month_next) simp_all
    moreover have "days_before_month y (mo + 1) \<le> days_before_month y mo'"
      using m month m' by (intro days_before_month_mono) simp_all
    ultimately show ?thesis using d d' unfolding month(1) by linarith
  next
    case day
    then show ?thesis by simp
  qed
qed

lemma radix_lex:
  fixes a a' b b' B :: int
  assumes "a < a' \<or> (a = a' \<and> (b < b' \<or> (b = b' \<and> R)))"
      and "0 \<le> b" "b < B" "0 \<le> b'" "b' < B"
  shows "a * B + b < a' * B + b' \<or> (a * B + b = a' * B + b' \<and> R)"
proof (cases "a < a'")
  case True
  have "0 \<le> B" using assms(2,3) by linarith
  then have "(a + 1) * B \<le> a' * B"
    using True by (intro mult_right_mono) simp_all
  then have "a * B + B \<le> a' * B" by (simp add: algebra_simps)
  then show ?thesis using assms(3,4) by linarith
next
  case False
  with assms(1) show ?thesis by auto
qed

lemma clock_instant_order:
  assumes m: "1 \<le> mo" "mo \<le> 12" and d: "1 \<le> d" "d \<le> days_in_month y mo"
      and m': "1 \<le> mo'" "mo' \<le> 12" and d': "1 \<le> d'" "d' \<le> days_in_month y' mo'"
      and t: "0 \<le> h" "h < 24" "0 \<le> mi" "mi < 60" "0 \<le> sec" "sec < 60" "0 \<le> us" "us < 1000000"
      and t': "0 \<le> h'" "h' < 24" "0 \<le> mi'" "mi' < 60" "0 \<le> sec'" "sec' < 60" "0 \<le> us'" "us' < 1000000"
      and lex: "y < y' \<or> (y = y' \<and> (mo < mo' \<or> (mo = mo' \<and> (d < d' \<or> (d = d' \<and>
                (h < h' \<or> (h = h' \<and> (mi < mi' \<or> (mi = mi' \<and>
                (sec < sec' \<or> (sec = sec' \<and> us \<le> us')))))))))))"
  shows "clock_instant y mo d h mi sec us \<le> clock_instant y' mo' d' h' mi' sec' us'"
proof -
  let ?N = "days_before_year y + days_before_month y mo + (d - 1)"
  let ?N' = "days_before_year y' + days_before_month y' mo' + (d' - 1)"
  let ?R3 = "us < us' \<or> (us = us' \<and> True)"
  let ?R2 = "sec < sec' \<or> (sec = sec' \<and> ?R3)"
  let ?R1 = "mi < mi' \<or> (mi = mi' \<and> ?R2)"
  let ?R0 = "h < h' \<or> (h = h' \<and> ?R1)"
  have 0: "?N < ?N' \<or> (?N = ?N' \<and> ?R0)"
  proof (cases "y < y' \<or> (y = y' \<and> (mo < mo' \<or> (mo = mo' \<and> d < d')))")
    case True
    from day_number_order[OF m d m' d' True] show ?thesis by simp
  next
    case False
    with lex have "y = y'" "mo = mo'" "d = d'" and "?R0" by auto
    then show ?thesis by simp
  qed
  from radix_lex[OF 0 t(1,2) t'(1,2)]
  have 1: "?N * 24 + h < ?N' * 24 + h' \<or> (?N * 24 + h = ?N' * 24 + h' \<and> ?R1)" .
  from radix_lex[OF 1 t(3,4) t'(3,4)]
  have 2: "(?N * 24 + h) * 60 + mi < (?N' * 24 + h') * 60 + mi'
         \<or> ((?N * 24 + h) * 60 + mi = (?N' * 24 + h') * 60 + mi' \<and> ?R2)" .
  from radix_lex[OF 2 t(5,6) t'(5,6)]
  have 3: "((?N * 24 + h) * 60 + mi) * 60 + sec < ((?N' * 24 + h') * 60 + mi') * 60 + sec'
         \<or> (((?N * 24 + h) * 60 + mi) * 60 + sec = ((?N' * 24 + h') * 60 + mi') * 60 + sec' \<and> ?R3)" .
  from radix_lex[OF 3 t(7,8) t'(7,8)]
  show ?thesis unfolding clock_instant_def by linarith
qed

lemma field_range:
  assumes "field x i n = Some v" and "i + n \<le> length x"
  shows "0 \<le> v \<and> v < 10 ^ n"
proof -
  have "length (take n (drop i x)) = n" using assms(2) by simp
  with number_from_range[of 0 "take n (drop i x)" v] assms(1) show ?thesis
    by (simp add: field_def)
qed

lemma field_step:
  assumes le: "drop i x \<le> drop i x'"
      and f: "field x i n = Some v" and f': "field x' i n = Some v'"
      and len: "i + n \<le> length x" "i + n \<le> length x'"
  shows "v < v' \<or> (v = v' \<and> drop (i + n) x \<le> drop (i + n) x')"
proof -
  let ?a = "take n (drop i x)" and ?b = "take n (drop i x')"
  have split: "drop i x = ?a @ drop (i + n) x" "drop i x' = ?b @ drop (i + n) x'"
    by (metis append_take_drop_id drop_drop add.commute)+
  have l: "length ?a = length ?b" using len by simp
  from le have "?a @ drop (i + n) x \<le> ?b @ drop (i + n) x'"
    using split by simp
  then have "?a < ?b \<or> (?a = ?b \<and> drop (i + n) x \<le> drop (i + n) x')"
    using le_append_same_length[OF l] by simp
  moreover have "((?a < ?b) = (v < v')) \<and> ((?a = ?b) = (v = v'))"
    using number_from_order[OF l, of 0 v v'] f f' by (simp add: field_def)
  ultimately show ?thesis by auto
qed

lemma sep_step:
  fixes x x' :: string
  assumes le: "drop i x \<le> drop i x'" and len: "i < length x" "i < length x'"
      and eq: "x ! i = x' ! i"
  shows "drop (Suc i) x \<le> drop (Suc i) x'"
proof -
  have "drop i x = x ! i # drop (Suc i) x" "drop i x' = x' ! i # drop (Suc i) x'"
    using len by (simp_all add: Cons_nth_drop_Suc)
  with le eq show ?thesis by auto
qed

lemma field_sep_step:
  assumes le: "drop i x \<le> drop i x'"
      and f: "field x i n = Some v" and f': "field x' i n = Some v'"
      and len: "i + n < length x" "i + n < length x'"
      and eq: "x ! (i + n) = x' ! (i + n)"
  shows "v < v' \<or> (v = v' \<and> drop (Suc (i + n)) x \<le> drop (Suc (i + n)) x')"
proof -
  from field_step[OF le f f'] len
  have "v < v' \<or> (v = v' \<and> drop (i + n) x \<le> drop (i + n) x')" by simp
  then show ?thesis using sep_step[OF _ len eq] by blast
qed

lemma wall_clock_Some:
  assumes "wall_clock x = Some w"
  shows "\<exists>y mo d h mi sec us.
           field x 0 4 = Some y \<and> field x 5 2 = Some mo \<and> field x 8 2 = Some d
         \<and> field x 11 2 = Some h \<and> field x 14 2 = Some mi \<and> field x 17 2 = Some sec
         \<and> field x 20 6 = Some us
         \<and> x ! 4 = CHR ''-'' \<and> x ! 7 = CHR ''-'' \<and> x ! 10 = CHR ''T'' \<and> x ! 13 = CHR '':''
         \<and> x ! 16 = CHR '':'' \<and> x ! 19 = CHR ''.''
         \<and> 1 \<le> mo \<and> mo \<le> 12 \<and> 1 \<le> d \<and> d \<le> days_in_month y mo
         \<and> h < 24 \<and> mi < 60 \<and> sec < 60
         \<and> w = clock_instant y mo d h mi sec us"
  using assms unfolding wall_clock_def clock_instant_def
  by (simp split: if_splits option.splits prod.splits)

lemma wall_clock_order:
  assumes w: "wall_clock x = Some w" and w': "wall_clock x' = Some w'"
      and len: "length x = 26" "length x' = 26" and le: "x \<le> x'"
  shows "w \<le> w'"
proof -
  from wall_clock_Some[OF w] obtain y mo d h mi sec us where
    f: "field x 0 4 = Some y" "field x 5 2 = Some mo" "field x 8 2 = Some d"
       "field x 11 2 = Some h" "field x 14 2 = Some mi" "field x 17 2 = Some sec"
       "field x 20 6 = Some us"
    and s: "x ! 4 = CHR ''-''" "x ! 7 = CHR ''-''" "x ! 10 = CHR ''T''" "x ! 13 = CHR '':''"
       "x ! 16 = CHR '':''" "x ! 19 = CHR ''.''"
    and b: "1 \<le> mo" "mo \<le> 12" "1 \<le> d" "d \<le> days_in_month y mo" "h < 24" "mi < 60" "sec < 60"
    and v: "w = clock_instant y mo d h mi sec us"
    by blast
  from wall_clock_Some[OF w'] obtain y' mo' d' h' mi' sec' us' where
    f': "field x' 0 4 = Some y'" "field x' 5 2 = Some mo'" "field x' 8 2 = Some d'"
       "field x' 11 2 = Some h'" "field x' 14 2 = Some mi'" "field x' 17 2 = Some sec'"
       "field x' 20 6 = Some us'"
    and s': "x' ! 4 = CHR ''-''" "x' ! 7 = CHR ''-''" "x' ! 10 = CHR ''T''" "x' ! 13 = CHR '':''"
       "x' ! 16 = CHR '':''" "x' ! 19 = CHR ''.''"
    and b': "1 \<le> mo'" "mo' \<le> 12" "1 \<le> d'" "d' \<le> days_in_month y' mo'" "h' < 24" "mi' < 60" "sec' < 60"
    and v': "w' = clock_instant y' mo' d' h' mi' sec' us'"
    by blast
  have r: "0 \<le> h" "0 \<le> mi" "0 \<le> sec" "0 \<le> us" "us < 1000000"
    using field_range[OF f(4)] field_range[OF f(5)] field_range[OF f(6)] field_range[OF f(7)] len
    by simp_all
  have r': "0 \<le> h'" "0 \<le> mi'" "0 \<le> sec'" "0 \<le> us'" "us' < 1000000"
    using field_range[OF f'(4)] field_range[OF f'(5)] field_range[OF f'(6)] field_range[OF f'(7)] len
    by simp_all
  have 0: "drop 0 x \<le> drop 0 x'" using le by simp
  have 1: "y < y' \<or> (y = y' \<and> drop 5 x \<le> drop 5 x')"
    using field_sep_step[OF 0 f(1) f'(1)] len s(1) s'(1) by simp
  have 2: "mo < mo' \<or> (mo = mo' \<and> drop 8 x \<le> drop 8 x')" if "drop 5 x \<le> drop 5 x'"
    using field_sep_step[OF that f(2) f'(2)] len s(2) s'(2) by simp
  have 3: "d < d' \<or> (d = d' \<and> drop 11 x \<le> drop 11 x')" if "drop 8 x \<le> drop 8 x'"
    using field_sep_step[OF that f(3) f'(3)] len s(3) s'(3) by simp
  have 4: "h < h' \<or> (h = h' \<and> drop 14 x \<le> drop 14 x')" if "drop 11 x \<le> drop 11 x'"
    using field_sep_step[OF that f(4) f'(4)] len s(4) s'(4) by simp
  have 5: "mi < mi' \<or> (mi = mi' \<and> drop 17 x \<le> drop 17 x')" if "drop 14 x \<le> drop 14 x'"
    using field_sep_step[OF that f(5) f'(5)] len s(5) s'(5) by simp
  have 6: "sec < sec' \<or> (sec = sec' \<and> drop 20 x \<le> drop 20 x')" if "drop 17 x \<le> drop 17 x'"
    using field_sep_step[OF that f(6) f'(6)] len s(6) s'(6) by simp
  have 7: "us \<le> us'" if "drop 20 x \<le> drop 20 x'"
    using field_step[OF that f(7) f'(7)] len by auto
  have lex: "y < y' \<or> (y = y' \<and> (mo < mo' \<or> (mo = mo' \<and> (d < d' \<or> (d = d' \<and>
                (h < h' \<or> (h = h' \<and> (mi < mi' \<or> (mi = mi' \<and>
                (sec < sec' \<or> (sec = sec' \<and> us \<le> us')))))))))))"
    using 1 2 3 4 5 6 7 by blast
  show ?thesis
    unfolding v v'
    by (rule clock_instant_order[OF b(1,2,3,4) b'(1,2,3,4) r(1) b(5) r(2) b(6) r(3) b(7) r(4,5)
              r'(1) b'(5) r'(2) b'(6) r'(3) b'(7) r'(4,5) lex])
qed

lemma utc_offset_zero: "utc_offset ''+00:00'' = Some 0"
  by (simp add: utc_offset_def field_def digit_def)

lemma utc_text_fromisoformat:
  assumes "utc_text s"
  shows "length s = 32 \<and> (\<exists>w. wall_clock (take 26 s) = Some w \<and> fromisoformat s = Some (Aware w))"
proof -
  from assms have d: "drop 26 s = ''+00:00''"
    and "\<exists>w. wall_clock (take 26 s) = Some w"
    by (auto simp: utc_text_def split: option.splits)
  then obtain w where w: "wall_clock (take 26 s) = Some w" by blast
  have "length (drop 26 s) = 6" using d by simp
  then have l: "length s = 32" by simp
  with d w show ?thesis by (simp add: fromisoformat_def utc_offset_zero)
qed

lemma utc_text_order:
  assumes "utc_text s" and "utc_text s'" and le: "s \<le> s'"
  shows "\<exists>w w'. fromisoformat s = Some (Aware w) \<and> fromisoformat s' = Some (Aware w') \<and> w \<le> w'"
proof -
  from utc_text_fromisoformat[OF assms(1)] obtain w where
    l: "length s = 32" and w: "wall_clock (take 26 s) = Some w" and i: "fromisoformat s = Some (Aware w)"
    by blast
  from utc_text_fromisoformat[OF assms(2)] obtain w' where
    l': "length s' = 32" and w': "wall_clock (take 26 s') = Some w'" and i': "fromisoformat s' = Some (Aware w')"
    by blast
  have d: "drop 26 s = ''+00:00''" "drop 26 s' = ''+00:00''"
    using assms(1,2) by (simp_all add: utc_text_def)
  have "take 26 s @ drop 26 s \<le> take 26 s' @ drop 26 s'" using le by simp
  moreover have "length (take 26 s) = length (take 26 s')" using l l' by simp
  ultimately have "take 26 s < take 26 s' \<or> (take 26 s = take 26 s' \<and> drop 26 s \<le> drop 26 s')"
    using le_append_same_length[of "take 26 s" "take 26 s'" "drop 26 s" "drop 26 s'"] by blast
  then have "take 26 s \<le> take 26 s'" by auto
  from wall_clock_order[OF w w' _ _ this] l l' have "w \<le> w'" by simp
  with i i' show ?thesis by blast
qed

lemma in_time_order_utc:
  assumes "list_all (\<lambda>m. utc_text (timestamp_key m)) ms"
  shows "in_time_order fromisoformat ms"
proof -
  have st: "stamp fromisoformat m = fromisoformat (timestamp_key m)" if "utc_text (timestamp_key m)" for m
  proof (cases "map_of m ''timestamp''")
    case None
    then have "timestamp_key m = []" by (simp add: timestamp_key_def)
    with that show ?thesis by (simp add: utc_text_def)
  next
    case (Some ts)
    then show ?thesis by (simp add: stamp_def timestamp_key_def)
  qed
  show ?thesis
    unfolding in_time_order_def list_all_iff
  proof (intro ballI)
    fix m m' assume "m \<in> set ms" "m' \<in> set ms"
    with assms have u: "utc_text (timestamp_key m)" "utc_text (timestamp_key m')"
      by (simp_all add: list_all_iff)
    from utc_text_fromisoformat[OF u(1)] utc_text_fromisoformat[OF u(2)]
    obtain w w' where i: "fromisoformat (timestamp_key m) = Some (Aware w)"
      "fromisoformat (timestamp_key m') = Some (Aware w')" by blast
    show "case (stamp fromisoformat m, stamp fromisoformat m') of
            (Some d, Some d') \<Rightarrow>
              aware d = aware d' \<and>
              (if timestamp_key m \<le> timestamp_key m' then instant d \<le> instant d' else True)
          | _ \<Rightarrow> False"
    proof (cases "timestamp_key m \<le> timestamp_key m'")
      case True
      from utc_text_order[OF u True] i have "w \<le> w'" by simp
      with True i st[OF u(1)] st[OF u(2)] show ?thesis by simp
    next
      case False
      with i st[OF u(1)] st[OF u(2)] show ?thesis by simp
    qed
  qed
qed

subsection \<open>Writing a message\<close>

lemma set_read_files:
  "set (read_files st fns) = {m. \<exists>fn\<in>set fns. read_message_file st fn = Some m}"
  by (induction fns) (auto split: option.splits)

lemma set_get_all_messages:
  "set (get_all_messages st) = {m. \<exists>fn\<in>set (list_message_files st). read_message_file st fn = Some m}"
  by (simp add: get_all_messages_def set_read_files)

lemma get_all_messages_ensure_dirs [simp]: "get_all_messages (ensure_dirs st) = get_all_messages st"
  by (rule get_all_messages_cong) (simp_all add: ensure_dirs_def list_message_files_def split: option.splits)

lemma read_message_file_write:
  "read_message_file (atomic_write_message k m st) fn =
     (if fn = k then Some m else read_message_file st fn)"
  by (simp add: read_message_file_def atomic_write_message_def update_conv')

lemma set_list_message_files_write:
  "set (list_message_files (atomic_write_message k m st)) =
     {f \<in> insert k (set (list_message_files st)). endswith f ''.json''}"
  by (auto simp: list_message_files_def atomic_write_message_def dom_update)

lemma get_all_messages_write_subset:
  "set (get_all_messages (atomic_write_message k m st)) \<subseteq> insert m (set (get_all_messages st))"
  by (auto simp: set_get_all_messages read_message_file_write set_list_message_files_write split: if_splits)

lemma map_of_write:
  "map_of (messages_dir (atomic_write_message k m st)) k = Some (Parsed m)"
  by (simp add: atomic_write_message_def update_conv')

lemma load_last_seen_write [simp]:
  "load_last_seen (atomic_write_message k m st) = load_last_seen st"
  by (simp add: atomic_write_message_def load_last_seen_def)

lemma cmd_send_success:
  assumes a: "validate_author author = Inr a" and c: "validate_message content = Inr c"
  shows "cmd_send now author content st =
           (Inr [(''author'', a), (''timestamp'', now), (''content'', c)],
            save_last_seen
              (AList.update a now (load_last_seen (ensure_dirs st)))
              (atomic_write_message (replace_colon now @ ''_'' @ a @ ''.json'')
                 [(''author'', a), (''timestamp'', now), (''content'', c)] (ensure_dirs st)))"
  using a c by (simp add: cmd_send_def send_message_def Let_def getitem_def)

lemma cmd_send_cursor:
  assumes a: "validate_author author = Inr a" and c: "validate_message content = Inr c"
      and d: "fromiso now = Some d"
      and run: "cmd_send now author content st = (r, st')"
  shows "r = Inr [(''author'', a), (''timestamp'', now), (''content'', c)]"
    and "a = strip author"
    and "map_of (messages_dir st') (replace_colon now @ ''_'' @ a @ ''.json'') =
           Some (Parsed [(''author'', a), (''timestamp'', now), (''content'', c)])"
    and "map_of (load_last_seen st') a = Some now"
    and "get_unread_for fromiso st' a = Inr ms \<Longrightarrow> [(''author'', a), (''timestamp'', now), (''content'', c)] \<notin> set ms"
    and "list_all (comparable fromiso d) (get_all_messages st) \<Longrightarrow> \<exists>ms. get_unread_for fromiso st' a = Inr ms"
proof -
  let ?m = "[(''author'', a), (''timestamp'', now), (''content'', c)]"
  let ?st1 = "atomic_write_message (replace_colon now @ ''_'' @ a @ ''.json'') ?m (ensure_dirs st)"
  from run cmd_send_success[OF a c, of now st]
  have r: "r = Inr ?m" and st': "st' = save_last_seen (AList.update a now (load_last_seen (ensure_dirs st))) ?st1"
    by simp_all
  show "r = Inr ?m" by (rule r)
  show "a = strip author" using a by (simp add: validate_author_Inr)
  show "map_of (messages_dir st') (replace_colon now @ ''_'' @ a @ ''.json'') = Some (Parsed ?m)"
    by (simp add: st' messages_dir_save_last_seen map_of_write)
  show cur: "map_of (load_last_seen st') a = Some now"
    by (simp add: st' load_save_last_seen update_conv')
  have all: "get_all_messages st' = get_all_messages ?st1" by (simp add: st')
  have unread: "get_unread_for fromiso st' a = unread_after fromiso d (get_all_messages ?st1)"
    using get_unread_for_entry[of st' a now fromiso d] cur d all by simp
  have stamp: "stamp fromiso ?m = Some d" by (simp add: stamp_def d)
  { assume "get_unread_for fromiso st' a = Inr ms"
    then have "ms = filter (later fromiso d) (get_all_messages ?st1)"
      by (simp add: unread unread_after_Inr_iff)
    then show "?m \<notin> set ms" using stamp by (simp add: later_def) }
  { assume cmp: "list_all (comparable fromiso d) (get_all_messages st)"
    have "list_all (comparable fromiso d) (get_all_messages ?st1)"
      unfolding list_all_iff
    proof
      fix m assume "m \<in> set (get_all_messages ?st1)"
      then have "m = ?m \<or> m \<in> set (get_all_messages st)"
        using get_all_messages_write_subset[of "replace_colon now @ ''_'' @ a @ ''.json''" ?m "ensure_dirs st"]
        by auto
      then show "comparable fromiso d m"
        using cmp stamp by (auto simp: comparable_def list_all_iff)
    qed
    then show "\<exists>ms. get_unread_for fromiso st' a = Inr ms"
      by (simp add: unread unread_after_comparable) }
qed

subsection \<open>Unfolding for concrete runs\<close>

lemmas text_defs = strip_def is_space_def endswith_def replace_colon_def unsafe_chars_def

lemmas store_defs = ensure_dirs_def atomic_write_message_def list_message_files_def
  read_message_file_def load_last_seen_def save_last_seen_def getitem_def timestamp_key_def

lemmas bus_defs = validate_author_def validate_message_def send_message_def get_all_messages_def
  get_unread_for_def update_last_seen_def cmd_send_def cmd_get_messages_def dt_gt_def Let_def

lemmas iso_defs = fromisoformat_def wall_clock_def utc_offset_def field_def digit_def
  days_in_month_def days_before_year_def days_before_month_def is_leap_def

lemmas spec_defs = stored_messages_def stamp_def comparable_def later_def in_time_order_def

lemma iso_0900: "fromisoformat ''2025-01-01T09:00:00.000000+00:00'' = Some (Aware 63871318800000000)"
  by (simp add: iso_defs)

lemma iso_1000: "fromisoformat ''2025-01-01T10:00:00.000000+00:00'' = Some (Aware 63871322400000000)"
  by (simp add: iso_defs)

lemma iso_1000_0500: "fromisoformat ''2025-01-01T10:00:00.000000+05:00'' = Some (Aware 63871304400000000)"
  by (simp add: iso_defs)

lemma iso_naive: "fromisoformat ''2025-01-01T09:00:00.000000'' = Some (Naive 63871318800000000)"
  by (simp add: iso_defs)

lemma iso_yesterday: "fromisoformat ''yesterday'' = None"
  by (simp add: iso_defs)

section \<open>The claims\<close>

subsection \<open>C1: sending advances the sender's cursor\<close>

text \<open>
  C1, as the code has it. \<^verbatim>\<open>cmd_send\<close> is the sending operation that touches the registry
  (\<^verbatim>\<open>send_message\<close> alone does not). Whenever the author and the content pass validation and
  the clock's text \<open>now\<close> is one that \<^verbatim>\<open>fromisoformat\<close> reads, \<^verbatim>\<open>cmd_send\<close> stores the
  message under the trimmed author \<open>a = strip author\<close>, sets the registry entry of \<open>a\<close> to
  \<open>now\<close>, and a following \<^verbatim>\<open>get_unread_for\<close> for \<open>a\<close> never returns a list that holds the
  message; it does return a list when every stored record carries a timestamp that can be
  ordered against \<open>now\<close>.
\<close>

theorem cmd_send_advances_trimmed_sender:
  assumes "validate_author author = Inr a" and "validate_message content = Inr c"
      and "fromiso now = Some d"
  shows "\<exists>st'. cmd_send now author content st =
                 (Inr [(''author'', a), (''timestamp'', now), (''content'', c)], st')
           \<and> a = strip author
           \<and> map_of (messages_dir st') (replace_colon now @ ''_'' @ a @ ''.json'') =
               Some (Parsed [(''author'', a), (''timestamp'', now), (''content'', c)])
           \<and> map_of (load_last_seen st') a = Some now
           \<and> (\<forall>ms. get_unread_for fromiso st' a = Inr ms \<longrightarrow>
                  [(''author'', a), (''timestamp'', now), (''content'', c)] \<notin> set ms)
           \<and> (list_all (comparable fromiso d) (get_all_messages st) \<longrightarrow>
                  (\<exists>ms. get_unread_for fromiso st' a = Inr ms))"
proof -
  obtain r st' where run: "cmd_send now author content st = (r, st')"
    by (cases "cmd_send now author content st")
  note facts = cmd_send_cursor[where fromiso = fromiso and now = now and d = d, OF assms run]
  show ?thesis
    using run facts(1) facts(2) facts(3) facts(4) facts(5) facts(6) by blast
qed

text \<open>
  A run of it: alice's message of 09:00 is stored, bob (given as \<^verbatim>\<open>" bob"\<close>) sends at 10:00
  and then polls as \<^verbatim>\<open>"bob"\<close>.
\<close>

theorem cmd_send_advances_trimmed_sender_witness:
  "validate_author '' bob'' = Inr ''bob'' \<and> validate_message ''hi'' = Inr ''hi''
   \<and> fromisoformat ''2025-01-01T10:00:00.000000+00:00'' = Some (Aware 63871322400000000)
   \<and> map_of (load_last_seen (snd (cmd_send ''2025-01-01T10:00:00.000000+00:00'' '' bob'' ''hi''
        \<lparr>messages_dir =
           [(''2025-01-01T09-00-00.000000+00-00_alice.json'',
             Parsed [(''author'', ''alice''), (''timestamp'', ''2025-01-01T09:00:00.000000+00:00''),
                     (''content'', ''hello'')])],
         last_seen_file = None\<rparr>))) ''bob'' = Some ''2025-01-01T10:00:00.000000+00:00''
   \<and> (\<exists>ms. get_unread_for fromisoformat
          (snd (cmd_send ''2025-01-01T10:00:00.000000+00:00'' '' bob'' ''hi''
             \<lparr>messages_dir =
                [(''2025-01-01T09-00-00.000000+00-00_alice.json'',
                  Parsed [(''author'', ''alice''), (''timestamp'', ''2025-01-01T09:00:00.000000+00:00''),
                          (''content'', ''hello'')])],
              last_seen_file = None\<rparr>)) ''bob'' = Inr ms
         \<and> [(''author'', ''bob''), (''timestamp'', ''2025-01-01T10:00:00.000000+00:00''),
             (''content'', ''hi'')] \<notin> set ms)"
proof -
  let ?st = "\<lparr>messages_dir =
                [(''2025-01-01T09-00-00.000000+00-00_alice.json'',
                  Parsed [(''author'', ''alice''), (''timestamp'', ''2025-01-01T09:00:00.000000+00:00''),
                          (''content'', ''hello'')])],
              last_seen_file = None\<rparr>"
  have h1: "validate_author '' bob'' = Inr ''bob''"
    by (simp add: validate_author_def text_defs)
  have h2: "validate_message ''hi'' = Inr ''hi''"
    by (simp add: validate_message_def text_defs)
  have h3: "fromisoformat ''2025-01-01T10:00:00.000000+00:00'' = Some (Aware 63871322400000000)"
    by (rule iso_1000)
  have h4: "list_all (comparable fromisoformat (Aware 63871322400000000)) (get_all_messages ?st)"
    by (simp add: get_all_messages_def store_defs text_defs spec_defs iso_0900)
  from cmd_send_advances_trimmed_sender[where fromiso = fromisoformat
         and now = "''2025-01-01T10:00:00.000000+00:00''" and st = ?st, OF h1 h2 h3] h4
  show ?thesis using h1 h2 h3 by fastforce
qed

text \<open>
  C1 as stated fails for an author that validation accepts with surrounding whitespace: the
  cursor is stored under the trimmed name, so the poll under the name as given finds no
  cursor and returns the message just sent.
\<close>

theorem cmd_send_padded_author_counterexample:
  "fst (cmd_send ''2025-01-01T09:00:00.000000+00:00'' '' bob'' ''hi''
          \<lparr>messages_dir = [], last_seen_file = None\<rparr>) =
     Inr [(''author'', ''bob''), (''timestamp'', ''2025-01-01T09:00:00.000000+00:00''), (''content'', ''hi'')]
   \<and> map_of (load_last_seen (snd (cmd_send ''2025-01-01T09:00:00.000000+00:00'' '' bob'' ''hi''
          \<lparr>messages_dir = [], last_seen_file = None\<rparr>))) '' bob'' = None
   \<and> get_unread_for fromisoformat
        (snd (cmd_send ''2025-01-01T09:00:00.000000+00:00'' '' bob'' ''hi''
          \<lparr>messages_dir = [], last_seen_file = None\<rparr>)) '' bob'' =
     Inr [[(''author'', ''bob''), (''timestamp'', ''2025-01-01T09:00:00.000000+00:00''), (''content'', ''hi'')]]"
  by (simp add: bus_defs store_defs text_defs)

text \<open>
  The tool \<^verbatim>\<open>send_agent_message\<close> of \<^verbatim>\<open>agentbus_mcp.py\<close> calls \<^verbatim>\<open>send_message\<close> and never
  writes the registry: bob's poll through \<^verbatim>\<open>get_agent_messages\<close> right after his own send
  delivers his message to him.
\<close>

lemma send_agent_message_keeps_registry:
  "last_seen_file (snd (send_agent_message now author message st)) = last_seen_file st
   \<or> last_seen_file (snd (send_agent_message now author message st)) = last_seen_file (ensure_dirs st)"
  by (auto simp: send_agent_message_def send_message_def atomic_write_message_def Let_def
           split: sum.splits)

lemma tool_send_then_poll_delivers_own_message:
  "fst (get_agent_messages fromisoformat ''bob''
     (snd (send_agent_message ''2025-01-01T09:00:00.000000+00:00'' ''bob'' ''hi''
        \<lparr>messages_dir = [], last_seen_file = None\<rparr>))) =
   Inr [[(''author'', ''bob''), (''timestamp'', ''2025-01-01T09:00:00.000000+00:00''), (''content'', ''hi'')]]"
  by (simp add: send_agent_message_def get_agent_messages_def bus_defs store_defs text_defs)

subsection \<open>C2: reads and corrupt files\<close>

text \<open>
  C2 says that no read raises, whatever the files hold, and that a file whose record lacks
  a readable timestamp is left out. The code does not do so. The store here holds one
  record without a timestamp, and bob's cursor reads as a time: \<^verbatim>\<open>get_all_messages\<close>
  returns the record (it sorts as the empty text), and \<^verbatim>\<open>get_unread_for\<close> raises
  \<^verbatim>\<open>KeyError\<close> from \<^verbatim>\<open>m["timestamp"]\<close> in its comprehension, which no \<^verbatim>\<open>try\<close> guards.
\<close>

theorem get_unread_for_raises_on_record_without_timestamp:
  "get_all_messages
     \<lparr>messages_dir = [(''note.json'', Parsed [(''author'', ''alice''), (''content'', ''hi'')])],
      last_seen_file = Some (Parsed [(''bob'', ''2025-01-01T09:00:00.000000+00:00'')])\<rparr> =
     [[(''author'', ''alice''), (''content'', ''hi'')]]
   \<and> get_unread_for fromisoformat
     \<lparr>messages_dir = [(''note.json'', Parsed [(''author'', ''alice''), (''content'', ''hi'')])],
      last_seen_file = Some (Parsed [(''bob'', ''2025-01-01T09:00:00.000000+00:00'')])\<rparr> ''bob'' =
     Inl (KeyError ''timestamp'')"
  by (simp add: bus_defs store_defs text_defs iso_0900)

text \<open>
  What the code does tolerate, on stores whose files are either unparsable or objects of
  texts (the files this theory models; a file holding JSON of another shape is not among
  them): a file that does not parse is left out by \<^verbatim>\<open>get_all_messages\<close>, whose list is
  ordered by timestamp text and holds the records of the \<^verbatim>\<open>*.json\<close> files that parse;
  \<^verbatim>\<open>get_unread_for\<close> returns that list when the reader has no cursor or one that does not
  read as a time, and an ordered list of stored records when every stored record carries a
  timestamp that can be ordered against the cursor.
\<close>

lemma reads_skip_unparsable_files:
  assumes "distinct (map fst (messages_dir st))"
  shows "sorted (map timestamp_key (get_all_messages st))
       \<and> mset (get_all_messages st) = mset (stored_messages st)
       \<and> ((map_of (load_last_seen st) reader = None
            \<or> (\<exists>ts. map_of (load_last_seen st) reader = Some ts \<and> fromiso ts = None))
           \<longrightarrow> get_unread_for fromiso st reader = Inr (get_all_messages st))
       \<and> (\<forall>ts t. map_of (load_last_seen st) reader = Some ts \<and> fromiso ts = Some t
                  \<and> list_all (comparable fromiso t) (stored_messages st)
           \<longrightarrow> (\<exists>ms. get_unread_for fromiso st reader = Inr ms
                     \<and> sorted (map timestamp_key ms) \<and> set ms \<subseteq> set (stored_messages st)))"
proof -
  have m: "mset (get_all_messages st) = mset (stored_messages st)"
    by (rule mset_get_all_messages[OF assms])
  then have s: "set (get_all_messages st) = set (stored_messages st)"
    by (rule mset_eq_setD)
  have "\<exists>ms. get_unread_for fromiso st reader = Inr ms
             \<and> sorted (map timestamp_key ms) \<and> set ms \<subseteq> set (stored_messages st)"
    if "map_of (load_last_seen st) reader = Some ts" "fromiso ts = Some t"
       "list_all (comparable fromiso t) (stored_messages st)" for ts t
  proof -
    have "list_all (comparable fromiso t) (get_all_messages st)"
      using that(3) s by (simp add: list_all_iff)
    then have "get_unread_for fromiso st reader = Inr (filter (later fromiso t) (get_all_messages st))"
      using that(1,2) by (simp add: get_unread_for_entry unread_after_comparable)
    then show ?thesis
      using s by (auto simp: sorted_get_all_messages sorted_filter)
  qed
  then show ?thesis
    using m by (auto simp: sorted_get_all_messages get_unread_for_no_entry get_unread_for_unparsable_entry)
qed

lemma reads_skip_unparsable_files_run:
  "get_unread_for fromisoformat
     \<lparr>messages_dir =
        [(''broken.json'', Unparsable),
         (''2025-01-01T09-00-00.000000+00-00_carol.json'',
          Parsed [(''author'', ''carol''), (''timestamp'', ''2025-01-01T09:00:00.000000+00:00''),
                  (''content'', ''hello'')])],
      last_seen_file = Some Unparsable\<rparr> ''bob'' =
     Inr [[(''author'', ''carol''), (''timestamp'', ''2025-01-01T09:00:00.000000+00:00''),
           (''content'', ''hello'')]]"
  by (simp add: bus_defs store_defs text_defs)

subsection \<open>C3: unread messages are those strictly after the cursor\<close>

text \<open>
  C3 says that a reader whose cursor reads as a time gets the stored messages strictly later
  than it. The code does so only while every stored record carries a timestamp that can be
  ordered against the cursor: the comprehension reads \<^verbatim>\<open>m["timestamp"]\<close> of every record
  with no guard, so one record with an unreadable timestamp makes the whole call raise. Here
  bob's cursor is 09:00, alice's message of 10:00 is unread, and carol's record carries the
  timestamp \<^verbatim>\<open>yesterday\<close>: the call raises \<^verbatim>\<open>ValueError\<close> instead of returning alice's
  message.
\<close>

theorem get_unread_for_raises_on_unreadable_timestamp:
  "get_unread_for fromisoformat
     \<lparr>messages_dir =
        [(''2025-01-01T10-00-00.000000+00-00_alice.json'',
          Parsed [(''author'', ''alice''), (''timestamp'', ''2025-01-01T10:00:00.000000+00:00''), (''content'', ''hi'')]),
         (''x.json'',
          Parsed [(''author'', ''carol''), (''timestamp'', ''yesterday''), (''content'', ''hello'')])],
      last_seen_file = Some (Parsed [(''bob'', ''2025-01-01T09:00:00.000000+00:00'')])\<rparr> ''bob'' =
   Inl (ValueError (''Invalid isoformat string: '' @ [CHR 0x27] @ ''yesterday'' @ [CHR 0x27]))"
  by (simp add: bus_defs store_defs text_defs iso_0900 iso_1000 iso_yesterday)

text \<open>On stores whose records can all be ordered against the cursor, the code does what C3 says.\<close>

lemma get_unread_for_strictly_later:
  assumes "map_of (load_last_seen st) reader = Some ts" and "fromiso ts = Some t"
      and "list_all (comparable fromiso t) (get_all_messages st)"
  shows "get_unread_for fromiso st reader = Inr (filter (later fromiso t) (get_all_messages st))"
  using assms by (simp add: get_unread_for_entry unread_after_comparable)

lemma get_unread_for_naive_cursor_raises:
  "get_unread_for fromisoformat
     \<lparr>messages_dir =
        [(''2025-01-01T10-00-00.000000+00-00_alice.json'',
          Parsed [(''author'', ''alice''), (''timestamp'', ''2025-01-01T10:00:00.000000+00:00''), (''content'', ''hi'')])],
      last_seen_file = Some (Parsed [(''bob'', ''2025-01-01T09:00:00.000000'')])\<rparr> ''bob'' =
   Inl (TypeError ''can't compare offset-naive and offset-aware datetimes'')"
  by (simp add: bus_defs store_defs text_defs iso_naive iso_1000)

subsection \<open>C4: a reader without a usable cursor gets the whole history\<close>

text \<open>
  C4. When the registry holds no entry for the reader, or holds one that does not read as a
  time, \<^verbatim>\<open>get_unread_for\<close> returns what \<^verbatim>\<open>get_all_messages\<close> returns, which (file names
  being distinct) is every stored message: the records of all \<^verbatim>\<open>*.json\<close> files that parse.
\<close>

theorem get_unread_for_without_cursor:
  assumes "map_of (load_last_seen st) reader = None
           \<or> (\<exists>ts. map_of (load_last_seen st) reader = Some ts \<and> fromiso ts = None)"
      and "distinct (map fst (messages_dir st))"
  shows "get_unread_for fromiso st reader = Inr (get_all_messages st)
       \<and> mset (get_all_messages st) = mset (stored_messages st)"
  using assms
  by (auto simp: get_unread_for_no_entry get_unread_for_unparsable_entry mset_get_all_messages)

text \<open>A run of it: bob's cursor is the text \<^verbatim>\<open>garbage\<close>, and he gets both stored messages.\<close>

theorem get_unread_for_without_cursor_witness:
  "map_of (load_last_seen
     \<lparr>messages_dir =
        [(''2025-01-01T10-00-00.000000+00-00_carol.json'',
          Parsed [(''author'', ''carol''), (''timestamp'', ''2025-01-01T10:00:00.000000+00:00''), (''content'', ''hello'')]),
         (''2025-01-01T09-00-00.000000+00-00_alice.json'',
          Parsed [(''author'', ''alice''), (''timestamp'', ''2025-01-01T09:00:00.000000+00:00''), (''content'', ''hi'')])],
      last_seen_file = Some (Parsed [(''bob'', ''garbage'')])\<rparr>) ''bob'' = Some ''garbage''
   \<and> fromisoformat ''garbage'' = None
   \<and> get_unread_for fromisoformat
     \<lparr>messages_dir =
        [(''2025-01-01T10-00-00.000000+00-00_carol.json'',
          Parsed [(''author'', ''carol''), (''timestamp'', ''2025-01-01T10:00:00.000000+00:00''), (''content'', ''hello'')]),
         (''2025-01-01T09-00-00.000000+00-00_alice.json'',
          Parsed [(''author'', ''alice''), (''timestamp'', ''2025-01-01T09:00:00.000000+00:00''), (''content'', ''hi'')])],
      last_seen_file = Some (Parsed [(''bob'', ''garbage'')])\<rparr> ''bob'' =
     Inr [[(''author'', ''alice''), (''timestamp'', ''2025-01-01T09:00:00.000000+00:00''), (''content'', ''hi'')],
          [(''author'', ''carol''), (''timestamp'', ''2025-01-01T10:00:00.000000+00:00''), (''content'', ''hello'')]]"
proof -
  let ?st = "\<lparr>messages_dir =
        [(''2025-01-01T10-00-00.000000+00-00_carol.json'',
          Parsed [(''author'', ''carol''), (''timestamp'', ''2025-01-01T10:00:00.000000+00:00''), (''content'', ''hello'')]),
         (''2025-01-01T09-00-00.000000+00-00_alice.json'',
          Parsed [(''author'', ''alice''), (''timestamp'', ''2025-01-01T09:00:00.000000+00:00''), (''content'', ''hi'')])],
      last_seen_file = Some (Parsed [(''bob'', ''garbage'')])\<rparr>"
  have c: "map_of (load_last_seen ?st) ''bob'' = Some ''garbage''" by (simp add: load_last_seen_def)
  have g: "fromisoformat ''garbage'' = None" by (simp add: fromisoformat_def)
  have h: "map_of (load_last_seen ?st) ''bob'' = None
           \<or> (\<exists>ts. map_of (load_last_seen ?st) ''bob'' = Some ts \<and> fromisoformat ts = None)"
    using c g by simp
  have d: "distinct (map fst (messages_dir ?st))" by simp
  have v: "get_all_messages ?st =
     [[(''author'', ''alice''), (''timestamp'', ''2025-01-01T09:00:00.000000+00:00''), (''content'', ''hi'')],
      [(''author'', ''carol''), (''timestamp'', ''2025-01-01T10:00:00.000000+00:00''), (''content'', ''hello'')]]"
    by (simp add: get_all_messages_def store_defs text_defs)
  from get_unread_for_without_cursor[OF h d] c g v show ?thesis by simp
qed

subsection \<open>C5: all messages, ordered by timestamp, whatever the listing order\<close>

text \<open>
  C5, as the code has it. For a directory (file names are distinct), \<^verbatim>\<open>get_all_messages\<close>
  returns the records of the \<^verbatim>\<open>*.json\<close> files that parse, each once, in ascending order of
  their timestamp texts, and returns the same list for every order in which the directory
  may list the same files. The list is in ascending order of time when the stored
  timestamps all read as datetimes of one kind and their order as texts agrees with their
  order in time; it is so, in particular, when every stored timestamp has the fixed-width
  UTC form that the program writes.
\<close>

theorem get_all_messages_sorted_any_listing:
  assumes "distinct (map fst (messages_dir st))"
      and "mset (messages_dir st') = mset (messages_dir st)"
  shows "sorted (map timestamp_key (get_all_messages st))
       \<and> mset (get_all_messages st) = mset (stored_messages st)
       \<and> get_all_messages st' = get_all_messages st
       \<and> (in_time_order fromiso (stored_messages st) \<longrightarrow>
            sorted_wrt (not_after fromiso) (get_all_messages st))
       \<and> (list_all (\<lambda>m. utc_text (timestamp_key m)) (stored_messages st) \<longrightarrow>
            sorted_wrt (not_after fromisoformat) (get_all_messages st))"
proof -
  have m: "mset (get_all_messages st) = mset (stored_messages st)"
    by (rule mset_get_all_messages[OF assms(1)])
  then have s: "set (get_all_messages st) = set (stored_messages st)"
    by (rule mset_eq_setD)
  have t: "sorted_wrt (not_after f) (get_all_messages st)"
    if "in_time_order f (stored_messages st)" for f
  proof -
    from that s have "in_time_order f (get_all_messages st)"
      by (simp add: in_time_order_set[of "get_all_messages st" "stored_messages st"])
    with sorted_get_all_messages show ?thesis by (rule sorted_in_time_order)
  qed
  have "sorted (map timestamp_key (get_all_messages st))"
    by (rule sorted_get_all_messages)
  moreover have "get_all_messages st' = get_all_messages st"
    by (rule get_all_messages_listing_order[OF assms])
  ultimately show ?thesis
    using m t[of fromiso] t[of fromisoformat, OF in_time_order_utc] by blast
qed

text \<open>
  A run of it: the same two files listed in both orders, their names not in time order,
  their timestamps in the form the program writes.
\<close>

theorem get_all_messages_sorted_any_listing_witness:
  "distinct (map fst
     [(''zz.json'',
       Parsed [(''author'', ''alice''), (''timestamp'', ''2025-01-01T09:00:00.000000+00:00''), (''content'', ''hi'')]),
      (''aa.json'',
       Parsed [(''author'', ''carol''), (''timestamp'', ''2025-01-01T10:00:00.000000+00:00''), (''content'', ''hello'')])])
   \<and> utc_text ''2025-01-01T09:00:00.000000+00:00'' \<and> utc_text ''2025-01-01T10:00:00.000000+00:00''
   \<and> in_time_order fromisoformat
     [[(''author'', ''alice''), (''timestamp'', ''2025-01-01T09:00:00.000000+00:00''), (''content'', ''hi'')],
      [(''author'', ''carol''), (''timestamp'', ''2025-01-01T10:00:00.000000+00:00''), (''content'', ''hello'')]]
   \<and> get_all_messages
     \<lparr>messages_dir =
        [(''aa.json'',
          Parsed [(''author'', ''carol''), (''timestamp'', ''2025-01-01T10:00:00.000000+00:00''), (''content'', ''hello'')]),
         (''zz.json'',
          Parsed [(''author'', ''alice''), (''timestamp'', ''2025-01-01T09:00:00.000000+00:00''), (''content'', ''hi'')])],
      last_seen_file = None\<rparr> =
     [[(''author'', ''alice''), (''timestamp'', ''2025-01-01T09:00:00.000000+00:00''), (''content'', ''hi'')],
      [(''author'', ''carol''), (''timestamp'', ''2025-01-01T10:00:00.000000+00:00''), (''content'', ''hello'')]]
   \<and> sorted_wrt (not_after fromisoformat)
     (get_all_messages
       \<lparr>messages_dir =
        [(''zz.json'',
          Parsed [(''author'', ''alice''), (''timestamp'', ''2025-01-01T09:00:00.000000+00:00''), (''content'', ''hi'')]),
         (''aa.json'',
          Parsed [(''author'', ''carol''), (''timestamp'', ''2025-01-01T10:00:00.000000+00:00''), (''content'', ''hello'')])],
      last_seen_file = None\<rparr>)"
proof -
  let ?m1 = "[(''author'', ''alice''), (''timestamp'', ''2025-01-01T09:00:00.000000+00:00''), (''content'', ''hi'')]"
  let ?m2 = "[(''author'', ''carol''), (''timestamp'', ''2025-01-01T10:00:00.000000+00:00''), (''content'', ''hello'')]"
  let ?a = "(''zz.json'', Parsed ?m1)"
  let ?c = "(''aa.json'', Parsed ?m2)"
  let ?st = "\<lparr>messages_dir = [?a, ?c], last_seen_file = None\<rparr>"
  let ?st' = "\<lparr>messages_dir = [?c, ?a], last_seen_file = None\<rparr>"
  have d: "distinct (map fst (messages_dir ?st))" by simp
  have p: "mset (messages_dir ?st') = mset (messages_dir ?st)" by (simp add: add_mset_commute)
  have s: "stored_messages ?st = [?m1, ?m2]"
    by (simp add: stored_messages_def endswith_def)
  have u: "utc_text ''2025-01-01T09:00:00.000000+00:00''" "utc_text ''2025-01-01T10:00:00.000000+00:00''"
    by (simp_all add: utc_text_def iso_defs)
  have o: "in_time_order fromisoformat [?m1, ?m2]"
    by (simp add: in_time_order_def stamp_def timestamp_key_def iso_0900 iso_1000)
  have v: "get_all_messages ?st = [?m1, ?m2]"
    by (simp add: get_all_messages_def store_defs text_defs)
  from get_all_messages_sorted_any_listing[OF d p, of fromisoformat] o s
  have "get_all_messages ?st' = get_all_messages ?st"
    and "sorted_wrt (not_after fromisoformat) (get_all_messages ?st)"
    by simp_all
  with v d o u show ?thesis by simp
qed

text \<open>
  C5 as stated, with the order read as the order in time, fails for stored timestamps that
  are not normalised to UTC: alice's message is stamped 09:00 UTC, carol's 10:00 at offset
  +05:00, which is 05:00 UTC. Their timestamps are distinct, and the list has alice's
  message first, although carol's is the earlier one.
\<close>

theorem get_all_messages_offset_counterexample:
  "get_all_messages
     \<lparr>messages_dir =
        [(''2025-01-01T09-00-00.000000+00-00_alice.json'',
          Parsed [(''author'', ''alice''), (''timestamp'', ''2025-01-01T09:00:00.000000+00:00''), (''content'', ''hi'')]),
         (''2025-01-01T10-00-00.000000+05-00_carol.json'',
          Parsed [(''author'', ''carol''), (''timestamp'', ''2025-01-01T10:00:00.000000+05:00''), (''content'', ''hello'')])],
      last_seen_file = Some (Parsed [])\<rparr> =
     [[(''author'', ''alice''), (''timestamp'', ''2025-01-01T09:00:00.000000+00:00''), (''content'', ''hi'')],
      [(''author'', ''carol''), (''timestamp'', ''2025-01-01T10:00:00.000000+05:00''), (''content'', ''hello'')]]
   \<and> stamp fromisoformat
        [(''author'', ''alice''), (''timestamp'', ''2025-01-01T09:00:00.000000+00:00''), (''content'', ''hi'')] =
       Some (Aware 63871318800000000)
   \<and> stamp fromisoformat
        [(''author'', ''carol''), (''timestamp'', ''2025-01-01T10:00:00.000000+05:00''), (''content'', ''hello'')] =
       Some (Aware 63871304400000000)
   \<and> \<not> not_after fromisoformat
        [(''author'', ''alice''), (''timestamp'', ''2025-01-01T09:00:00.000000+00:00''), (''content'', ''hi'')]
        [(''author'', ''carol''), (''timestamp'', ''2025-01-01T10:00:00.000000+05:00''), (''content'', ''hello'')]"
  by (simp add: get_all_messages_def store_defs text_defs stamp_def not_after_def iso_0900 iso_1000_0500)

subsection \<open>C6: a second poll finds nothing\<close>

text \<open>
  C6, as the code has it. When the stored records all carry timestamps that read as
  datetimes of one kind and whose order as texts agrees with their order in time (as the
  fixed-width UTC texts the program writes do), then, after \<^verbatim>\<open>get_unread_for\<close> has returned
  a non-empty list and \<^verbatim>\<open>update_last_seen\<close> has been applied to it, \<^verbatim>\<open>update_last_seen\<close>
  succeeds and a second \<^verbatim>\<open>get_unread_for\<close> returns the empty list.
\<close>

theorem second_poll_empty:
  assumes ord: "in_time_order fromiso (get_all_messages st)"
      and first: "get_unread_for fromiso st reader = Inr ms"
      and ne: "ms \<noteq> []"
  shows "\<exists>st'. update_last_seen reader ms st = (Inr (), st') \<and> get_unread_for fromiso st' reader = Inr []"
proof -
  let ?all = "get_all_messages st"
  have sub: "set ms \<subseteq> set ?all" and srt: "sorted (map timestamp_key ms)"
    using first by (cases rule: get_unread_for_cases; simp add: sorted_get_all_messages sorted_filter)+
  have lst: "last ms \<in> set ?all" using ne sub by auto
  from in_time_orderD[OF ord lst lst] obtain dl where dl: "stamp fromiso (last ms) = Some dl" by auto
  then obtain tl where tl: "map_of (last ms) ''timestamp'' = Some tl" "fromiso tl = Some dl"
    by (auto dest: stamp_SomeD)
  let ?st' = "save_last_seen (AList.update reader tl (load_last_seen st)) st"
  have upd: "update_last_seen reader ms st = (Inr (), ?st')"
    using ne tl by (simp add: update_last_seen_def getitem_def)
  have cmp: "list_all (comparable fromiso dl) ?all"
    unfolding list_all_iff
  proof
    fix m assume "m \<in> set ?all"
    from in_time_orderD[OF ord this lst] dl show "comparable fromiso dl m"
      by (auto simp: comparable_def)
  qed
  have none: "filter (later fromiso dl) ?all = []"
    unfolding filter_empty_conv
  proof
    fix m assume m: "m \<in> set ?all"
    from in_time_orderD[OF ord m lst] dl obtain d where d: "stamp fromiso m = Some d"
      and mono: "timestamp_key m \<le> timestamp_key (last ms) \<longrightarrow> instant d \<le> instant dl"
      by auto
    show "\<not> later fromiso dl m"
    proof (cases "m \<in> set ms")
      case True
      then have "timestamp_key m \<le> timestamp_key (last ms)"
        using srt by (rule sorted_last_greatest[rotated])
      with mono d show ?thesis by (simp add: later_def)
    next
      case False
      from first show ?thesis
      proof (cases rule: get_unread_for_cases)
        case all
        with False m show ?thesis by simp
      next
        case (newer t)
        with False m have "\<not> later fromiso t m" by simp
        moreover have "later fromiso t (last ms)"
          using newer(2) ne last_in_set[of ms] by auto
        ultimately show ?thesis using d dl by (simp add: later_def)
      qed
    qed
  qed
  have "get_unread_for fromiso ?st' reader = Inr []"
    using get_unread_for_entry[of ?st' reader tl fromiso dl] tl cmp none
    by (simp add: load_save_last_seen update_conv' unread_after_comparable)
  with upd show ?thesis by blast
qed

text \<open>A run of it: two messages in the program's own format, and a reader with no cursor.\<close>

theorem second_poll_empty_witness:
  "in_time_order fromisoformat (get_all_messages
     \<lparr>messages_dir =
        [(''2025-01-01T09-00-00.000000+00-00_alice.json'',
          Parsed [(''author'', ''alice''), (''timestamp'', ''2025-01-01T09:00:00.000000+00:00''), (''content'', ''hi'')]),
         (''2025-01-01T10-00-00.000000+00-00_carol.json'',
          Parsed [(''author'', ''carol''), (''timestamp'', ''2025-01-01T10:00:00.000000+00:00''), (''content'', ''hello'')])],
      last_seen_file = Some (Parsed [])\<rparr>)
   \<and> get_unread_for fromisoformat
     \<lparr>messages_dir =
        [(''2025-01-01T09-00-00.000000+00-00_alice.json'',
          Parsed [(''author'', ''alice''), (''timestamp'', ''2025-01-01T09:00:00.000000+00:00''), (''content'', ''hi'')]),
         (''2025-01-01T10-00-00.000000+00-00_carol.json'',
          Parsed [(''author'', ''carol''), (''timestamp'', ''2025-01-01T10:00:00.000000+00:00''), (''content'', ''hello'')])],
      last_seen_file = Some (Parsed [])\<rparr> ''bob'' =
     Inr [[(''author'', ''alice''), (''timestamp'', ''2025-01-01T09:00:00.000000+00:00''), (''content'', ''hi'')],
          [(''author'', ''carol''), (''timestamp'', ''2025-01-01T10:00:00.000000+00:00''), (''content'', ''hello'')]]
   \<and> get_unread_for fromisoformat
     (snd (update_last_seen ''bob''
        [[(''author'', ''alice''), (''timestamp'', ''2025-01-01T09:00:00.000000+00:00''), (''content'', ''hi'')],
         [(''author'', ''carol''), (''timestamp'', ''2025-01-01T10:00:00.000000+00:00''), (''content'', ''hello'')]]
        \<lparr>messages_dir =
        [(''2025-01-01T09-00-00.000000+00-00_alice.json'',
          Parsed [(''author'', ''alice''), (''timestamp'', ''2025-01-01T09:00:00.000000+00:00''), (''content'', ''hi'')]),
         (''2025-01-01T10-00-00.000000+00-00_carol.json'',
          Parsed [(''author'', ''carol''), (''timestamp'', ''2025-01-01T10:00:00.000000+00:00''), (''content'', ''hello'')])],
      last_seen_file = Some (Parsed [])\<rparr>)) ''bob'' = Inr []"
proof -
  let ?m1 = "[(''author'', ''alice''), (''timestamp'', ''2025-01-01T09:00:00.000000+00:00''), (''content'', ''hi'')]"
  let ?m2 = "[(''author'', ''carol''), (''timestamp'', ''2025-01-01T10:00:00.000000+00:00''), (''content'', ''hello'')]"
  let ?st = "\<lparr>messages_dir =
        [(''2025-01-01T09-00-00.000000+00-00_alice.json'', Parsed ?m1),
         (''2025-01-01T10-00-00.000000+00-00_carol.json'', Parsed ?m2)],
      last_seen_file = Some (Parsed [])\<rparr>"
  have v: "get_all_messages ?st = [?m1, ?m2]"
    by (simp add: get_all_messages_def store_defs text_defs)
  have o: "in_time_order fromisoformat (get_all_messages ?st)"
    unfolding v by (simp add: spec_defs timestamp_key_def iso_0900 iso_1000)
  have f: "get_unread_for fromisoformat ?st ''bob'' = Inr [?m1, ?m2]"
    using v by (simp add: get_unread_for_def load_last_seen_def)
  have n: "[?m1, ?m2] \<noteq> []" by simp
  from second_poll_empty[OF o f n] o f show ?thesis by auto
qed

text \<open>
  C6 as stated, for every store, fails: the messages are returned in the order of their
  timestamp texts and the cursor is compared as a time. With alice's message stamped
  09:00 UTC and carol's stamped 10:00 at offset +05:00 (05:00 UTC), the cursor becomes
  carol's timestamp, and the second poll returns alice's message again.
\<close>

theorem second_poll_offset_counterexample:
  "get_unread_for fromisoformat
     \<lparr>messages_dir =
        [(''2025-01-01T09-00-00.000000+00-00_alice.json'',
          Parsed [(''author'', ''alice''), (''timestamp'', ''2025-01-01T09:00:00.000000+00:00''), (''content'', ''hi'')]),
         (''2025-01-01T10-00-00.000000+05-00_carol.json'',
          Parsed [(''author'', ''carol''), (''timestamp'', ''2025-01-01T10:00:00.000000+05:00''), (''content'', ''hello'')])],
      last_seen_file = Some (Parsed [])\<rparr> ''bob'' =
     Inr [[(''author'', ''alice''), (''timestamp'', ''2025-01-01T09:00:00.000000+00:00''), (''content'', ''hi'')],
          [(''author'', ''carol''), (''timestamp'', ''2025-01-01T10:00:00.000000+05:00''), (''content'', ''hello'')]]
   \<and> get_unread_for fromisoformat
     (snd (update_last_seen ''bob''
        [[(''author'', ''alice''), (''timestamp'', ''2025-01-01T09:00:00.000000+00:00''), (''content'', ''hi'')],
         [(''author'', ''carol''), (''timestamp'', ''2025-01-01T10:00:00.000000+05:00''), (''content'', ''hello'')]]
        \<lparr>messages_dir =
        [(''2025-01-01T09-00-00.000000+00-00_alice.json'',
          Parsed [(''author'', ''alice''), (''timestamp'', ''2025-01-01T09:00:00.000000+00:00''), (''content'', ''hi'')]),
         (''2025-01-01T10-00-00.000000+05-00_carol.json'',
          Parsed [(''author'', ''carol''), (''timestamp'', ''2025-01-01T10:00:00.000000+05:00''), (''content'', ''hello'')])],
      last_seen_file = Some (Parsed [])\<rparr>)) ''bob'' =
     Inr [[(''author'', ''alice''), (''timestamp'', ''2025-01-01T09:00:00.000000+00:00''), (''content'', ''hi'')]]"
  by (simp add: bus_defs store_defs text_defs iso_0900 iso_1000_0500)

text \<open>The same happens when the last message's timestamp does not read as a time at all.\<close>

lemma second_poll_unreadable_timestamp:
  "get_unread_for fromisoformat
     (snd (update_last_seen ''bob''
        [[(''author'', ''carol''), (''timestamp'', ''yesterday''), (''content'', ''hello'')]]
        \<lparr>messages_dir =
           [(''x.json'', Parsed [(''author'', ''carol''), (''timestamp'', ''yesterday''), (''content'', ''hello'')])],
         last_seen_file = Some (Parsed [])\<rparr>)) ''bob'' =
   Inr [[(''author'', ''carol''), (''timestamp'', ''yesterday''), (''content'', ''hello'')]]"
  by (simp add: bus_defs store_defs text_defs iso_yesterday)

subsection \<open>C7: advancing the cursor with nothing delivered\<close>

text \<open>
  C7. \<^verbatim>\<open>update_last_seen\<close> with an empty list of delivered messages returns at once: the
  store it leaves is the store it was given, registry file and message files alike.
\<close>

theorem update_last_seen_empty_noop: "update_last_seen reader [] st = (Inr (), st)"
  by (simp add: update_last_seen_def)

theorem update_last_seen_empty_noop_witness:
  "update_last_seen ''bob'' []
     \<lparr>messages_dir = [], last_seen_file = Some (Parsed [(''alice'', ''2025-01-01T09:00:00.000000+00:00'')])\<rparr> =
   (Inr (), \<lparr>messages_dir = [], last_seen_file = Some (Parsed [(''alice'', ''2025-01-01T09:00:00.000000+00:00'')])\<rparr>)
   \<and> update_last_seen ''bob'' [] \<lparr>messages_dir = [], last_seen_file = Some Unparsable\<rparr> =
   (Inr (), \<lparr>messages_dir = [], last_seen_file = Some Unparsable\<rparr>)"
  using update_last_seen_empty_noop[of "''bob''"] by simp

subsection \<open>C8: advancing the cursor to the last delivered message\<close>

text \<open>
  C8. For a non-empty list of delivered messages whose last one carries the timestamp
  \<open>t\<close>, \<^verbatim>\<open>update_last_seen\<close> writes the registry as loaded with the reader's entry set to
  \<open>t\<close>: the reader's entry is \<open>t\<close>, every other reader's entry is as loaded, the message
  files are untouched; and when the list is in ascending timestamp order, \<open>t\<close> is its
  latest timestamp.
\<close>

theorem update_last_seen_sets_cursor:
  assumes "msgs \<noteq> []" and "map_of (last msgs) ''timestamp'' = Some t"
      and "sorted (map timestamp_key msgs)"
  shows "\<exists>st'. update_last_seen reader msgs st = (Inr (), st')
           \<and> last_seen_file st' = Some (Parsed (AList.update reader t (load_last_seen st)))
           \<and> map_of (load_last_seen st') reader = Some t
           \<and> (\<forall>other. other \<noteq> reader \<longrightarrow>
                  map_of (load_last_seen st') other = map_of (load_last_seen st) other)
           \<and> messages_dir st' = messages_dir st
           \<and> (\<forall>m\<in>set msgs. timestamp_key m \<le> t)"
proof -
  have k: "timestamp_key (last msgs) = t"
    using assms(2) by (simp add: timestamp_key_def)
  have "\<forall>m\<in>set msgs. timestamp_key m \<le> t"
    using sorted_last_greatest[OF assms(3)] k by auto
  then show ?thesis
    using assms(1,2)
    by (simp add: update_last_seen_def getitem_def load_save_last_seen update_conv'
          messages_dir_save_last_seen)
       (simp add: save_last_seen_def)
qed

text \<open>A run of it: bob is given two messages; alice's entry stays, bob's is the later timestamp.\<close>

theorem update_last_seen_sets_cursor_witness:
  "sorted (map timestamp_key
     [[(''author'', ''alice''), (''timestamp'', ''2025-01-01T09:00:00.000000+00:00''), (''content'', ''hi'')],
      [(''author'', ''carol''), (''timestamp'', ''2025-01-01T10:00:00.000000+00:00''), (''content'', ''hello'')]])
   \<and> update_last_seen ''bob''
     [[(''author'', ''alice''), (''timestamp'', ''2025-01-01T09:00:00.000000+00:00''), (''content'', ''hi'')],
      [(''author'', ''carol''), (''timestamp'', ''2025-01-01T10:00:00.000000+00:00''), (''content'', ''hello'')]]
     \<lparr>messages_dir = [], last_seen_file = Some (Parsed [(''alice'', ''2025-01-01T09:00:00.000000+00:00'')])\<rparr> =
   (Inr (),
    \<lparr>messages_dir = [],
     last_seen_file = Some (Parsed [(''alice'', ''2025-01-01T09:00:00.000000+00:00''),
                                    (''bob'', ''2025-01-01T10:00:00.000000+00:00'')])\<rparr>)"
proof -
  let ?ms = "[[(''author'', ''alice''), (''timestamp'', ''2025-01-01T09:00:00.000000+00:00''), (''content'', ''hi'')],
      [(''author'', ''carol''), (''timestamp'', ''2025-01-01T10:00:00.000000+00:00''), (''content'', ''hello'')]]"
  let ?st = "\<lparr>messages_dir = [], last_seen_file = Some (Parsed [(''alice'', ''2025-01-01T09:00:00.000000+00:00'')])\<rparr>"
  have n: "?ms \<noteq> []" by simp
  have l: "map_of (last ?ms) ''timestamp'' = Some ''2025-01-01T10:00:00.000000+00:00''" by simp
  have s: "sorted (map timestamp_key ?ms)" by (simp add: timestamp_key_def)
  from update_last_seen_sets_cursor[OF n l s, of "''bob''" ?st]
  obtain st' where "update_last_seen ''bob'' ?ms ?st = (Inr (), st')"
    and "last_seen_file st' =
           Some (Parsed (AList.update ''bob'' ''2025-01-01T10:00:00.000000+00:00'' (load_last_seen ?st)))"
    and "messages_dir st' = messages_dir ?st"
    by blast
  then show ?thesis using s by (simp add: load_last_seen_def)
qed

subsection \<open>C9: validation before the store is touched\<close>

text \<open>
  C9, as the code has it. \<^verbatim>\<open>send_message\<close> validates the trimmed author and the trimmed
  content. It raises \<^verbatim>\<open>ValueError\<close> and leaves the store as it was whenever the author,
  after trimming surrounding whitespace, is empty, longer than 100 characters, or holds
  \<^verbatim>\<open>/\<close>, a backslash, NUL, line feed or carriage return, or the content, after trimming, is
  empty or longer than 100000 characters; in every other case it succeeds.
\<close>

theorem send_message_validates_trimmed:
  "(if strip author = [] \<or> 100 < length (strip author)
       \<or> list_ex (\<lambda>c. c \<in> set (strip author)) unsafe_chars
       \<or> strip content = [] \<or> 100000 < length (strip content)
    then \<exists>msg. send_message now author content st = (Inl (ValueError msg), st)
    else \<exists>m st'. send_message now author content st = (Inr m, st'))"
proof (cases "send_message now author content st")
  case (Pair r st')
  show ?thesis
  proof (cases r)
    case (Inl e)
    with Pair have run: "send_message now author content st = (Inl e, st')" by simp
    from send_message_Inl[OF run] obtain msg where "st' = st" "e = ValueError msg" by blast
    moreover have "\<not> (validate_author author = Inr (strip author)
                      \<and> validate_message content = Inr (strip content))"
      using run by (auto simp: send_message_def Let_def)
    ultimately show ?thesis
      using run by (auto simp: validate_author_Inr validate_message_Inr)
  next
    case (Inr m)
    with Pair have run: "send_message now author content st = (Inr m, st')" by simp
    then show ?thesis
      by (auto simp: send_message_Inr validate_author_Inr validate_message_Inr)
  qed
qed

text \<open>
  Runs of it, at the boundaries the specification names: the empty author, an author of 101
  characters, a content of one space and a content of 100001 characters fail and leave the
  store alone; an author of 100 characters and \<^verbatim>\<open>send("bob", "ok")\<close> succeed.
\<close>

theorem send_message_validates_trimmed_witness:
  "(\<exists>msg. send_message ''2025-01-01T09:00:00.000000+00:00'' '''' ''x''
            \<lparr>messages_dir = [], last_seen_file = None\<rparr> =
          (Inl (ValueError msg), \<lparr>messages_dir = [], last_seen_file = None\<rparr>))
   \<and> (\<exists>msg. send_message ''2025-01-01T09:00:00.000000+00:00'' (replicate 101 CHR ''a'') ''x''
            \<lparr>messages_dir = [], last_seen_file = None\<rparr> =
          (Inl (ValueError msg), \<lparr>messages_dir = [], last_seen_file = None\<rparr>))
   \<and> (\<exists>msg. send_message ''2025-01-01T09:00:00.000000+00:00'' ''bob'' '' ''
            \<lparr>messages_dir = [], last_seen_file = None\<rparr> =
          (Inl (ValueError msg), \<lparr>messages_dir = [], last_seen_file = None\<rparr>))
   \<and> (\<exists>msg. send_message ''2025-01-01T09:00:00.000000+00:00'' ''bob'' (replicate 100001 CHR ''x'')
            \<lparr>messages_dir = [], last_seen_file = None\<rparr> =
          (Inl (ValueError msg), \<lparr>messages_dir = [], last_seen_file = None\<rparr>))
   \<and> (\<exists>m st'. send_message ''2025-01-01T09:00:00.000000+00:00'' (replicate 100 CHR ''a'') ''x''
            \<lparr>messages_dir = [], last_seen_file = None\<rparr> = (Inr m, st'))
   \<and> (\<exists>m st'. send_message ''2025-01-01T09:00:00.000000+00:00'' ''bob'' ''ok''
            \<lparr>messages_dir = [], last_seen_file = None\<rparr> = (Inr m, st'))"
proof -
  let ?now = "''2025-01-01T09:00:00.000000+00:00''"
  let ?st = "\<lparr>messages_dir = [], last_seen_file = None\<rparr>"
  have a: "\<not> is_space CHR ''a''" and x: "\<not> is_space CHR ''x''" by (simp_all add: is_space_def)
  have a101: "strip (replicate 101 CHR ''a'') = replicate 101 CHR ''a''"
    by (rule strip_unpadded) (simp_all add: a)
  have a100: "strip (replicate 100 CHR ''a'') = replicate 100 CHR ''a''"
    by (rule strip_unpadded) (simp_all add: a)
  have xs: "strip (replicate 100001 CHR ''x'') = replicate 100001 CHR ''x''"
    by (rule strip_unpadded) (simp_all add: x)
  have bob: "strip ''bob'' = ''bob''" and sx: "strip ''x'' = ''x''" and ok: "strip ''ok'' = ''ok''"
    and sp: "strip '' '' = ''''" and em: "strip '''' = ''''"
    by (simp_all add: text_defs)
  have 1: "\<exists>msg. send_message ?now '''' ''x'' ?st = (Inl (ValueError msg), ?st)"
    using send_message_validates_trimmed[of "''''" "''x''" ?now ?st] by (simp add: em)
  have 2: "\<exists>msg. send_message ?now (replicate 101 CHR ''a'') ''x'' ?st = (Inl (ValueError msg), ?st)"
    using send_message_validates_trimmed[of "replicate 101 CHR ''a''" "''x''" ?now ?st]
    by (simp add: a101)
  have 3: "\<exists>msg. send_message ?now ''bob'' '' '' ?st = (Inl (ValueError msg), ?st)"
    using send_message_validates_trimmed[of "''bob''" "'' ''" ?now ?st] by (simp add: sp)
  have 4: "\<exists>msg. send_message ?now ''bob'' (replicate 100001 CHR ''x'') ?st = (Inl (ValueError msg), ?st)"
    using send_message_validates_trimmed[of "''bob''" "replicate 100001 CHR ''x''" ?now ?st]
    by (simp add: xs)
  have 5: "\<exists>m st'. send_message ?now (replicate 100 CHR ''a'') ''x'' ?st = (Inr m, st')"
    using send_message_validates_trimmed[of "replicate 100 CHR ''a''" "''x''" ?now ?st]
    by (simp add: a100 sx unsafe_chars_def)
  have 6: "\<exists>m st'. send_message ?now ''bob'' ''ok'' ?st = (Inr m, st')"
    using send_message_validates_trimmed[of "''bob''" "''ok''" ?now ?st]
    by (simp add: bob ok unsafe_chars_def)
  from 1 2 3 4 5 6 show ?thesis by blast
qed

text \<open>
  C9 as stated fails: an author that holds a line feed (or is longer than 100 characters)
  only in its surrounding whitespace is accepted, because the checks see the trimmed author.
\<close>

theorem send_message_trailing_newline_counterexample:
  "send_message ''2025-01-01T09:00:00.000000+00:00'' (''bob'' @ [CHR 0x0A]) ''x''
     \<lparr>messages_dir = [], last_seen_file = Some (Parsed [])\<rparr> =
   (Inr [(''author'', ''bob''), (''timestamp'', ''2025-01-01T09:00:00.000000+00:00''), (''content'', ''x'')],
    \<lparr>messages_dir =
       [(''2025-01-01T09-00-00.000000+00-00_bob.json'',
         Parsed [(''author'', ''bob''), (''timestamp'', ''2025-01-01T09:00:00.000000+00:00''), (''content'', ''x'')])],
     last_seen_file = Some (Parsed [])\<rparr>)"
  by (simp add: bus_defs store_defs text_defs)

text \<open>
  The command \<^verbatim>\<open>cmd_send\<close> runs \<^verbatim>\<open>ensure_dirs\<close> before \<^verbatim>\<open>send_message\<close>: when validation
  fails, the store it leaves is the one \<^verbatim>\<open>ensure_dirs\<close> made, with an empty registry file
  created if there was none.
\<close>

lemma cmd_send_invalid:
  assumes "send_message now author content (ensure_dirs st) = (Inl e, st')"
  shows "cmd_send now author content st = (Inl e, ensure_dirs st)"
  using assms send_message_Inl[OF assms] by (simp add: cmd_send_def)

lemma cmd_send_empty_author_creates_registry:
  "cmd_send ''2025-01-01T09:00:00.000000+00:00'' [] ''x'' \<lparr>messages_dir = [], last_seen_file = None\<rparr> =
   (Inl (ValueError ''Author name cannot be empty''),
    \<lparr>messages_dir = [], last_seen_file = Some (Parsed [])\<rparr>)"
  by (simp add: bus_defs store_defs text_defs)

subsection \<open>C10: the author is trimmed before validation and storage\<close>

text \<open>
  C10. \<^verbatim>\<open>send_message\<close> succeeds exactly when the trimmed author is not empty, has at most
  100 characters and none of the unsafe characters, and the trimmed content is not empty and
  has at most 100000 characters; and when it succeeds, the message it returns carries the
  trimmed author, and that same message is stored in the file named by the timestamp
  (colons replaced), an underscore, the trimmed author and \<^verbatim>\<open>.json\<close>.
\<close>

theorem send_message_trims_author:
  "((\<exists>m st'. send_message now author content st = (Inr m, st')) \<longleftrightarrow>
      strip author \<noteq> [] \<and> length (strip author) \<le> 100
      \<and> \<not> list_ex (\<lambda>c. c \<in> set (strip author)) unsafe_chars
      \<and> strip content \<noteq> [] \<and> length (strip content) \<le> 100000)
   \<and> (\<forall>m st'. send_message now author content st = (Inr m, st') \<longrightarrow>
         m = [(''author'', strip author), (''timestamp'', now), (''content'', strip content)]
         \<and> map_of (messages_dir st') (replace_colon now @ ''_'' @ strip author @ ''.json'') =
             Some (Parsed m))"
  by (auto simp: send_message_Inr validate_author_Inr validate_message_Inr map_of_write)

text \<open>A run of it: the author is given with a leading tab and trailing spaces.\<close>

theorem send_message_trims_author_witness:
  "strip ([CHR 0x09] @ ''bob  '') = ''bob''
   \<and> send_message ''2025-01-01T09:00:00.000000+00:00'' ([CHR 0x09] @ ''bob  '') '' hi ''
        \<lparr>messages_dir = [], last_seen_file = None\<rparr> =
      (Inr [(''author'', ''bob''), (''timestamp'', ''2025-01-01T09:00:00.000000+00:00''), (''content'', ''hi'')],
       \<lparr>messages_dir =
          [(''2025-01-01T09-00-00.000000+00-00_bob.json'',
            Parsed [(''author'', ''bob''), (''timestamp'', ''2025-01-01T09:00:00.000000+00:00''), (''content'', ''hi'')])],
        last_seen_file = None\<rparr>)
   \<and> map_of (messages_dir (snd (send_message ''2025-01-01T09:00:00.000000+00:00'' ([CHR 0x09] @ ''bob  '') '' hi ''
        \<lparr>messages_dir = [], last_seen_file = None\<rparr>))) ''2025-01-01T09-00-00.000000+00-00_bob.json'' =
      Some (Parsed [(''author'', ''bob''), (''timestamp'', ''2025-01-01T09:00:00.000000+00:00''), (''content'', ''hi'')])"
proof -
  let ?now = "''2025-01-01T09:00:00.000000+00:00''"
  let ?st = "\<lparr>messages_dir = [], last_seen_file = None\<rparr>"
  let ?run = "send_message ?now ([CHR 0x09] @ ''bob  '') '' hi '' ?st"
  have sa: "strip ([CHR 0x09] @ ''bob  '') = ''bob''" and sc: "strip '' hi '' = ''hi''"
    by (simp_all add: text_defs)
  have run: "?run = (Inr [(''author'', ''bob''), (''timestamp'', ?now), (''content'', ''hi'')],
       \<lparr>messages_dir =
          [(''2025-01-01T09-00-00.000000+00-00_bob.json'',
            Parsed [(''author'', ''bob''), (''timestamp'', ?now), (''content'', ''hi'')])],
        last_seen_file = None\<rparr>)"
    by (simp add: bus_defs store_defs text_defs)
  from send_message_trims_author[of ?now "[CHR 0x09] @ ''bob  ''" "'' hi ''" ?st]
  have "\<forall>m st'. ?run = (Inr m, st') \<longrightarrow>
          map_of (messages_dir st') (replace_colon ?now @ ''_'' @ strip ([CHR 0x09] @ ''bob  '') @ ''.json'') =
            Some (Parsed m)"
    by blast
  with run have "map_of (messages_dir (snd ?run))
        (replace_colon ?now @ ''_'' @ strip ([CHR 0x09] @ ''bob  '') @ ''.json'') =
      Some (Parsed [(''author'', ''bob''), (''timestamp'', ?now), (''content'', ''hi'')])"
    by simp
  then show ?thesis using sa run by (simp add: replace_colon_def)
qed

end
